theory Spec2Isabelle
  imports Main "HOL-Library.Sublist"
begin

section \<open>Strings\<close>

text \<open>
  A Python \<open>str\<close> is a sequence of Unicode code points, and \<open>len\<close>, slicing and
  \<open>strip\<close> count code points. A string is therefore a list of code points; the
  ASCII literals of the source are written with \<open>ascii\<close>, the Cyrillic ones as their
  code points.
\<close>

type_synonym pystr = "nat list"

definition ascii :: "string \<Rightarrow> pystr" where
  "ascii s = map of_char s"

text \<open>\<open>str(n)\<close> for a non-negative integer, as an f-string renders it.\<close>

fun digits :: "nat \<Rightarrow> pystr" where
  "digits n = (if n < 10 then [48 + n] else digits (n div 10) @ [48 + n mod 10])"

declare digits.simps [simp del]

text \<open>\<open>str.isspace\<close> on one code point: the characters \<open>str.strip()\<close> removes.\<close>

definition is_space :: "nat \<Rightarrow> bool" where
  "is_space c \<longleftrightarrow>
     (9 \<le> c \<and> c \<le> 13) \<or> (28 \<le> c \<and> c \<le> 32) \<or> c = 133 \<or> c = 160 \<or> c = 5760 \<or>
     (8192 \<le> c \<and> c \<le> 8202) \<or> c = 8232 \<or> c = 8233 \<or> c = 8239 \<or> c = 8287 \<or> c = 12288"

definition strip :: "pystr \<Rightarrow> pystr" where
  "strip s = rev (dropWhile is_space (rev (dropWhile is_space s)))"

definition startswith :: "pystr \<Rightarrow> pystr \<Rightarrow> bool" where
  "startswith s p \<longleftrightarrow> prefix p s"

section \<open>Configuration (bot_config.py)\<close>

text \<open>
  \<open>from secrets import ...\<close> either succeeds (\<open>Some\<close>) or raises ImportError
  (\<open>None\<close>), in which case the three placeholders are bound.
\<close>

record secrets =
  TELEGRAM_BOT_TOKEN :: pystr
  YANDEX_FOLDER_ID :: pystr
  YANDEX_AUTH_TOKEN :: pystr

definition import_secrets :: "secrets option \<Rightarrow> secrets" where
  "import_secrets module =
     (case module of
        Some s \<Rightarrow> s
      | None \<Rightarrow> \<lparr>TELEGRAM_BOT_TOKEN = ascii ''YOUR_TELEGRAM_BOT_TOKEN'',
                 YANDEX_FOLDER_ID = ascii ''YOUR_YANDEX_FOLDER_ID'',
                 YANDEX_AUTH_TOKEN = ascii ''YOUR_YANDEX_AUTH_TOKEN''\<rparr>)"

text \<open>\<open>os.getenv(key, default)\<close> over the process environment.\<close>

definition getenv :: "(string \<rightharpoonup> pystr) \<Rightarrow> string \<Rightarrow> pystr \<Rightarrow> pystr" where
  "getenv environ key fallback = (case environ key of Some v \<Rightarrow> v | None \<Rightarrow> fallback)"

record telegram_config =
  token :: pystr
  max_message_length :: nat
  timeout :: nat

record yandex_config =
  folder_id :: pystr
  auth_token :: pystr
  model_name :: string
  max_tokens :: nat

definition TELEGRAM_CONFIG :: "(string \<rightharpoonup> pystr) \<Rightarrow> secrets option \<Rightarrow> telegram_config" where
  "TELEGRAM_CONFIG environ module =
     \<lparr>token = getenv environ ''TELEGRAM_BOT_TOKEN'' (TELEGRAM_BOT_TOKEN (import_secrets module)),
      max_message_length = 4000,
      timeout = 30\<rparr>"

definition YANDEX_CONFIG :: "(string \<rightharpoonup> pystr) \<Rightarrow> secrets option \<Rightarrow> yandex_config" where
  "YANDEX_CONFIG environ module =
     \<lparr>folder_id = getenv environ ''YANDEX_FOLDER_ID'' (YANDEX_FOLDER_ID (import_secrets module)),
      auth_token = getenv environ ''YANDEX_AUTH_TOKEN'' (YANDEX_AUTH_TOKEN (import_secrets module)),
      model_name = ''yandexgpt'',
      max_tokens = 2000\<rparr>"

record config_status =
  valid :: bool
  issues :: "string list"

text \<open>
  \<open>validate_config\<close>: a credential is reported when it is empty or equal to the
  literal the function compares it with.
\<close>

definition validate_config :: "telegram_config \<Rightarrow> yandex_config \<Rightarrow> config_status" where
  "validate_config tg ya =
     (let issues0 = [];
          issues1 = (if token tg = [] \<or> token tg = ascii ''YOUR_TELEGRAM_TOKEN''
                     then issues0 @ [''Telegram bot token not configured''] else issues0);
          issues2 = (if folder_id ya = [] \<or> folder_id ya = ascii ''YOUR_FOLDER_ID''
                     then issues1 @ [''YandexGPT folder_id not configured''] else issues1);
          issues3 = (if auth_token ya = [] \<or> auth_token ya = ascii ''YOUR_AUTH_TOKEN''
                     then issues2 @ [''YandexGPT auth_token not configured''] else issues2)
      in \<lparr>valid = (length issues3 = 0), issues = issues3\<rparr>)"

subsection \<open>SYSTEM_PROMPTS\<close>

text \<open>
  The entries \<open>welcome\<close>, \<open>help\<close>, \<open>error\<close> and \<open>no_response\<close>, as code points.
  The entry \<open>main\<close> is a template with the one placeholder \<open>{curriculum_text}\<close>;
  it only ever occurs formatted, as the system message of a completion request (see
  \<open>yandex_message\<close> below).
\<close>

definition SYSTEM_PROMPTS_welcome :: pystr where
  "SYSTEM_PROMPTS_welcome =
     [127891, 32, 1044, 1086, 1073, 1088, 1086, 32, 1087, 1086, 1078, 1072, 1083, 1086, 1074,
      1072, 1090, 1100, 32, 1074, 32, 1073, 1086, 1090, 32, 1087, 1086, 32, 1091, 1095, 1077,
      1073, 1085, 1099, 1084, 32, 1087, 1083, 1072, 1085, 1072, 1084, 32, 1048, 1058, 1052,
      1054, 33, 10, 10, 1071, 32, 1087, 1086, 1084, 1086, 1075, 1091, 32, 1074, 1072, 1084, 32,
      1085, 1072, 1081, 1090, 1080, 32, 1080, 1085, 1092, 1086, 1088, 1084, 1072, 1094, 1080,
      1102, 32, 1086, 32, 1084, 1072, 1075, 1080, 1089, 1090, 1077, 1088, 1089, 1082, 1080,
      1093, 32, 1087, 1088, 1086, 1075, 1088, 1072, 1084, 1084, 1072, 1093, 58, 10, 8226, 32,
      60, 98, 62, 1048, 1089, 1082, 1091, 1089, 1089, 1090, 1074, 1077, 1085, 1085, 1099, 1081,
      32, 1080, 1085, 1090, 1077, 1083, 1083, 1077, 1082, 1090, 60, 47, 98, 62, 10, 8226, 32,
      60, 98, 62, 1059, 1087, 1088, 1072, 1074, 1083, 1077, 1085, 1080, 1077, 32, 1048, 1048,
      45, 1087, 1088, 1086, 1076, 1091, 1082, 1090, 1072, 1084, 1080, 60, 47, 98, 62, 10, 10,
      1042, 1099, 32, 1084, 1086, 1078, 1077, 1090, 1077, 32, 1089, 1087, 1088, 1086, 1089,
      1080, 1090, 1100, 58, 10, 8226, 32, 1050, 1072, 1082, 1080, 1077, 32, 1076, 1080, 1089,
      1094, 1080, 1087, 1083, 1080, 1085, 1099, 32, 1077, 1089, 1090, 1100, 32, 1074, 32, 1087,
      1088, 1086, 1075, 1088, 1072, 1084, 1084, 1077, 63, 10, 8226, 32, 1057, 1082, 1086, 1083,
      1100, 1082, 1086, 32, 1079, 1072, 1095, 1077, 1090, 1085, 1099, 1093, 32, 1077, 1076,
      1080, 1085, 1080, 1094, 32, 1091, 32, 1076, 1080, 1089, 1094, 1080, 1087, 1083, 1080,
      1085, 1099, 63, 10, 8226, 32, 1042, 32, 1082, 1072, 1082, 1086, 1084, 32, 1089, 1077,
      1084, 1077, 1089, 1090, 1088, 1077, 32, 1080, 1079, 1091, 1095, 1072, 1077, 1090, 1089,
      1103, 32, 1087, 1088, 1077, 1076, 1084, 1077, 1090, 63, 10, 8226, 32, 1050, 1072, 1082,
      1080, 1077, 32, 1087, 1088, 1072, 1082, 1090, 1080, 1082, 1080, 32, 1087, 1088, 1077,
      1076, 1091, 1089, 1084, 1086, 1090, 1088, 1077, 1085, 1099, 63, 10, 8226, 32, 1048, 32,
      1084, 1085, 1086, 1075, 1086, 1077, 32, 1076, 1088, 1091, 1075, 1086, 1077, 33, 10, 10,
      1055, 1088, 1086, 1089, 1090, 1086, 32, 1079, 1072, 1076, 1072, 1081, 1090, 1077, 32,
      1089, 1074, 1086, 1081, 32, 1074, 1086, 1087, 1088, 1086, 1089, 33, 32, 128172]"

definition SYSTEM_PROMPTS_help :: pystr where
  "SYSTEM_PROMPTS_help =
     [128218, 32, 60, 98, 62, 1055, 1086, 1084, 1086, 1097, 1100, 32, 1087, 1086, 32, 1073,
      1086, 1090, 1091, 60, 47, 98, 62, 10, 10, 60, 98, 62, 1044, 1086, 1089, 1090, 1091, 1087,
      1085, 1099, 1077, 32, 1087, 1088, 1086, 1075, 1088, 1072, 1084, 1084, 1099, 58, 60, 47,
      98, 62, 10, 8226, 32, 1048, 1089, 1082, 1091, 1089, 1089, 1090, 1074, 1077, 1085, 1085,
      1099, 1081, 32, 1080, 1085, 1090, 1077, 1083, 1083, 1077, 1082, 1090, 10, 8226, 32, 1059,
      1087, 1088, 1072, 1074, 1083, 1077, 1085, 1080, 1077, 32, 1048, 1048, 45, 1087, 1088,
      1086, 1076, 1091, 1082, 1090, 1072, 1084, 1080, 47, 65, 73, 32, 80, 114, 111, 100, 117,
      99, 116, 10, 10, 60, 98, 62, 1055, 1088, 1080, 1084, 1077, 1088, 1099, 32, 1074, 1086,
      1087, 1088, 1086, 1089, 1086, 1074, 58, 60, 47, 98, 62, 10, 8226, 32, 34, 1050, 1072,
      1082, 1080, 1077, 32, 1076, 1080, 1089, 1094, 1080, 1087, 1083, 1080, 1085, 1099, 32,
      1087, 1086, 32, 1084, 1072, 1096, 1080, 1085, 1085, 1086, 1084, 1091, 32, 1086, 1073,
      1091, 1095, 1077, 1085, 1080, 1102, 32, 1077, 1089, 1090, 1100, 32, 1074, 32, 1087, 1088,
      1086, 1075, 1088, 1072, 1084, 1084, 1077, 32, 1048, 1048, 63, 34, 10, 8226, 32, 34, 1057,
      1082, 1086, 1083, 1100, 1082, 1086, 32, 1079, 1072, 1095, 1077, 1090, 1085, 1099, 1093,
      32, 1077, 1076, 1080, 1085, 1080, 1094, 32, 1091, 32, 1076, 1080, 1089, 1094, 1080, 1087,
      1083, 1080, 1085, 1099, 32, 39, 1043, 1083, 1091, 1073, 1086, 1082, 1086, 1077, 32, 1086,
      1073, 1091, 1095, 1077, 1085, 1080, 1077, 39, 63, 34, 10, 8226, 32, 34, 1050, 1072, 1082,
      1080, 1077, 32, 1087, 1088, 1072, 1082, 1090, 1080, 1082, 1080, 32, 1074, 32, 51, 32,
      1089, 1077, 1084, 1077, 1089, 1090, 1088, 1077, 63, 34, 10, 8226, 32, 34, 1056, 1072,
      1089, 1089, 1082, 1072, 1078, 1080, 32, 1087, 1088, 1086, 32, 1087, 1088, 1086, 1075,
      1088, 1072, 1084, 1084, 1091, 32, 1059, 1087, 1088, 1072, 1074, 1083, 1077, 1085, 1080,
      1077, 32, 1048, 1048, 45, 1087, 1088, 1086, 1076, 1091, 1082, 1090, 1072, 1084, 1080, 34,
      10, 10, 60, 98, 62, 1050, 1086, 1084, 1072, 1085, 1076, 1099, 58, 60, 47, 98, 62, 10, 47,
      115, 116, 97, 114, 116, 32, 45, 32, 1085, 1072, 1095, 1072, 1090, 1100, 32, 1088, 1072,
      1073, 1086, 1090, 1091, 10, 47, 104, 101, 108, 112, 32, 45, 32, 1101, 1090, 1072, 32,
      1089, 1087, 1088, 1072, 1074, 1082, 1072, 10, 10, 1047, 1072, 1076, 1072, 1074, 1072,
      1081, 1090, 1077, 32, 1074, 1086, 1087, 1088, 1086, 1089, 1099, 32, 1085, 1072, 32, 1088,
      1091, 1089, 1089, 1082, 1086, 1084, 32, 1103, 1079, 1099, 1082, 1077, 33, 32, 127479,
      127482]"

definition SYSTEM_PROMPTS_error :: pystr where
  "SYSTEM_PROMPTS_error =
     [1048, 1079, 1074, 1080, 1085, 1080, 1090, 1077, 44, 32, 1087, 1088, 1086, 1080, 1079,
      1086, 1096, 1083, 1072, 32, 1086, 1096, 1080, 1073, 1082, 1072, 32, 1087, 1088, 1080, 32,
      1086, 1073, 1088, 1072, 1073, 1086, 1090, 1082, 1077, 32, 1074, 1072, 1096, 1077, 1075,
      1086, 32, 1074, 1086, 1087, 1088, 1086, 1089, 1072, 46, 32, 1055, 1086, 1087, 1088, 1086,
      1073, 1091, 1081, 1090, 1077, 32, 1087, 1086, 1079, 1078, 1077, 46]"

definition SYSTEM_PROMPTS_no_response :: pystr where
  "SYSTEM_PROMPTS_no_response =
     [1048, 1079, 1074, 1080, 1085, 1080, 1090, 1077, 44, 32, 1085, 1077, 32, 1091, 1076, 1072,
      1083, 1086, 1089, 1100, 32, 1087, 1086, 1083, 1091, 1095, 1080, 1090, 1100, 32, 1086,
      1090, 1074, 1077, 1090, 32, 1086, 1090, 32, 1084, 1086, 1076, 1077, 1083, 1080, 46, 32,
      1055, 1086, 1087, 1088, 1086, 1073, 1091, 1081, 1090, 1077, 32, 1087, 1086, 1079, 1078,
      1077, 46]"

section \<open>The Formatter (fix_telegram_formatting)\<close>

text \<open>
  The four \<open>re.sub\<close> calls, each a left-to-right scan for non-overlapping matches: at
  a position where the pattern matches, the replacement is emitted and the scan resumes
  after the match; elsewhere the character is copied and the scan moves on by one.
  Code points: asterisk 42, back quote 96, line feed 10.
\<close>

definition b_open :: pystr where "b_open = ascii ''<b>''"
definition b_close :: pystr where "b_close = ascii ''</b>''"
definition i_open :: pystr where "i_open = ascii ''<i>''"
definition i_close :: pystr where "i_close = ascii ''</i>''"
definition code_open :: pystr where "code_open = ascii ''<code>''"
definition code_close :: pystr where "code_close = ascii ''</code>''"

text \<open>
  \<open>(.*?)\*\*\<close> without DOTALL: the shortest run of characters other than line feed
  that is followed by two asterisks. Returns the run and the text after the asterisks.
\<close>

fun lazy_bold :: "pystr \<Rightarrow> (pystr \<times> pystr) option" where
  "lazy_bold (c # d # r) =
     (if c = 42 \<and> d = 42 then Some ([], r)
      else if c = 10 then None
      else map_option (\<lambda>(x, rest). (c # x, rest)) (lazy_bold (d # r)))"
| "lazy_bold _ = None"

lemma lazy_bold_length: "lazy_bold t = Some (x, rest) \<Longrightarrow> length rest < length t"
  by (induction t arbitrary: x rule: lazy_bold.induct) (auto split: if_splits)

text \<open>\<open>re.sub(r'\*\*(.*?)\*\*', r'<b>\1</b>', text)\<close>\<close>

function sub_bold :: "pystr \<Rightarrow> pystr" where
  "sub_bold (c # d # r) =
     (if c = 42 \<and> d = 42 then
        (case lazy_bold r of
           Some (x, rest) \<Rightarrow> b_open @ x @ b_close @ sub_bold rest
         | None \<Rightarrow> c # sub_bold (d # r))
      else c # sub_bold (d # r))"
| "sub_bold [c] = [c]"
| "sub_bold [] = []"
  by pat_completeness auto
termination
  by (relation "measure length") (auto dest: lazy_bold_length)

text \<open>
  \<open>([^*]+?)\*(?!\*)\<close>: a non-empty run of characters other than the asterisk, then an
  asterisk that is not followed by another one. The run cannot contain an asterisk, so
  it is the whole run up to the next asterisk or there is no match.
\<close>

definition match_italic :: "pystr \<Rightarrow> (pystr \<times> pystr) option" where
  "match_italic t =
     (let x = takeWhile (\<lambda>c. c \<noteq> 42) t; r = dropWhile (\<lambda>c. c \<noteq> 42) t
      in if x \<noteq> [] \<and> r \<noteq> [] \<and> (case tl r of [] \<Rightarrow> True | e # _ \<Rightarrow> e \<noteq> 42)
         then Some (x, tl r) else None)"

lemma match_italic_length: "match_italic t = Some (x, rest) \<Longrightarrow> length rest < length t"
proof -
  assume m: "match_italic t = Some (x, rest)"
  then have "dropWhile (\<lambda>c. c \<noteq> 42) t \<noteq> []" and "rest = tl (dropWhile (\<lambda>c. c \<noteq> 42) t)"
    by (auto simp: match_italic_def Let_def split: if_splits)
  moreover have "length (dropWhile (\<lambda>c. c \<noteq> 42) t) \<le> length t"
    by (rule length_dropWhile_le)
  ultimately show ?thesis
    by (cases "dropWhile (\<lambda>c. c \<noteq> 42) t") auto
qed

text \<open>
  \<open>re.sub(r'(?<!\*)\*([^*]+?)\*(?!\*)', r'<i>\1</i>', text)\<close>. The look-behind reads
  the character before the position in the text being scanned, given as \<open>prev\<close>
  (\<open>None\<close> at the start of the text).
\<close>

function sub_italic :: "nat option \<Rightarrow> pystr \<Rightarrow> pystr" where
  "sub_italic prev (c # cs) =
     (if c = 42 \<and> prev \<noteq> Some 42 then
        (case match_italic cs of
           Some (x, rest) \<Rightarrow> i_open @ x @ i_close @ sub_italic (Some 42) rest
         | None \<Rightarrow> c # sub_italic (Some c) cs)
      else c # sub_italic (Some c) cs)"
| "sub_italic prev [] = []"
  by pat_completeness auto
termination
  by (relation "measure (\<lambda>(prev, t). length t)") (auto dest: match_italic_length)

text \<open>
  \<open>(.*?)```\<close> with DOTALL: the shortest run of any characters that is followed by
  three back quotes.
\<close>

fun lazy_block :: "pystr \<Rightarrow> (pystr \<times> pystr) option" where
  "lazy_block (c # d # e # r) =
     (if c = 96 \<and> d = 96 \<and> e = 96 then Some ([], r)
      else map_option (\<lambda>(x, rest). (c # x, rest)) (lazy_block (d # e # r)))"
| "lazy_block _ = None"

lemma lazy_block_length: "lazy_block t = Some (x, rest) \<Longrightarrow> length rest < length t"
  by (induction t arbitrary: x rule: lazy_block.induct) (auto split: if_splits)

text \<open>\<open>re.sub(r'```(.*?)```', r'<code>\1</code>', text, flags=re.DOTALL)\<close>\<close>

function sub_block :: "pystr \<Rightarrow> pystr" where
  "sub_block (c # d # e # r) =
     (if c = 96 \<and> d = 96 \<and> e = 96 then
        (case lazy_block r of
           Some (x, rest) \<Rightarrow> code_open @ x @ code_close @ sub_block rest
         | None \<Rightarrow> c # sub_block (d # e # r))
      else c # sub_block (d # e # r))"
| "sub_block [c, d] = [c, d]"
| "sub_block [c] = [c]"
| "sub_block [] = []"
  by pat_completeness auto
termination
  by (relation "measure length") (auto dest: lazy_block_length)

text \<open>
  \<open>([^`]+?)`\<close>: a non-empty run of characters other than the back quote, then a back
  quote.
\<close>

definition match_code :: "pystr \<Rightarrow> (pystr \<times> pystr) option" where
  "match_code t =
     (let x = takeWhile (\<lambda>c. c \<noteq> 96) t; r = dropWhile (\<lambda>c. c \<noteq> 96) t
      in if x \<noteq> [] \<and> r \<noteq> [] then Some (x, tl r) else None)"

lemma match_code_length: "match_code t = Some (x, rest) \<Longrightarrow> length rest < length t"
proof -
  assume m: "match_code t = Some (x, rest)"
  then have "dropWhile (\<lambda>c. c \<noteq> 96) t \<noteq> []" and "rest = tl (dropWhile (\<lambda>c. c \<noteq> 96) t)"
    by (auto simp: match_code_def Let_def split: if_splits)
  moreover have "length (dropWhile (\<lambda>c. c \<noteq> 96) t) \<le> length t"
    by (rule length_dropWhile_le)
  ultimately show ?thesis
    by (cases "dropWhile (\<lambda>c. c \<noteq> 96) t") auto
qed

text \<open>\<open>re.sub(r'`([^`]+?)`', r'<code>\1</code>', text)\<close>\<close>

function sub_code :: "pystr \<Rightarrow> pystr" where
  "sub_code (c # cs) =
     (if c = 96 then
        (case match_code cs of
           Some (x, rest) \<Rightarrow> code_open @ x @ code_close @ sub_code rest
         | None \<Rightarrow> c # sub_code cs)
      else c # sub_code cs)"
| "sub_code [] = []"
  by pat_completeness auto
termination
  by (relation "measure length") (auto dest: match_code_length)

definition fix_telegram_formatting :: "pystr \<Rightarrow> pystr" where
  "fix_telegram_formatting text =
     (let text1 = sub_bold text;
          text2 = sub_italic None text1;
          text3 = sub_block text2;
          text4 = sub_code text3
      in text4)"

section \<open>The transport, the collaborators and the bot's state\<close>

text \<open>
  Every outbound call of the bot is recorded, in order, in \<open>calls\<close>. The URL and the
  bot token are fixed per endpoint and left out; \<open>parse_mode\<close> is always HTML.
\<close>

text \<open>
  A message of a completion request: \<open>System c\<close> has role \<open>system\<close> and the text
  \<open>SYSTEM_PROMPTS['main'].format(curriculum_text=c)\<close>, \<open>User q\<close> has role \<open>user\<close>
  and the text \<open>q\<close>.
\<close>

datatype yandex_message = System pystr | User pystr

datatype call =
    SendMessage int pystr
  | EditMessageText int int pystr
  | DeleteMessage int int
  | SendChatAction int
  | GetUpdates int
  | GetCurriculumText
  | Completions "yandex_message list"

text \<open>
  What \<open>requests.post\<close> gives back: it raises, or the body is not JSON (so
  \<open>response.json()\<close> raises), or the body is a JSON object, of which the code reads
  the truth value of \<open>ok\<close> and \<open>result.message_id\<close> (\<open>None\<close> when the key is
  missing, so the lookup raises KeyError).
\<close>

datatype post_reply = PostRaises | PostNotJson | PostJson bool "int option"

record message =
  chat_id :: "int option"
  from_id :: "int option"
  msg_text :: "pystr option"

record update =
  update_id :: "int option"
  message :: "message option"

datatype updates_reply = GetRaises | GetNotJson | GetJson bool "update list"

datatype completion_reply = CompletionRaises | CompletionResult "pystr list"

text \<open>
  The outside world answers each call; its answer may depend on every call made so far
  (the list it is given ends with the call being answered). \<open>curriculum_text\<close> is
  \<open>PDFProcessor.get_curriculum_text\<close>, whose module is not part of the sources:
  \<open>None\<close> when it raises.
\<close>

record world =
  post_reply_of :: "call list \<Rightarrow> post_reply"
  updates_reply_of :: "call list \<Rightarrow> updates_reply"
  completion_reply_of :: "call list \<Rightarrow> completion_reply"
  curriculum_text :: "call list \<Rightarrow> pystr option"

datatype exn = KeyError | ValueError | RequestException | JSONDecodeError | CompletionsError | PdfError

datatype level = INFO | WARNING | ERROR

record bot =
  update_offset :: int
  calls :: "call list"
  logs :: "(level \<times> string) list"

definition logger :: "level \<Rightarrow> string \<Rightarrow> bot \<Rightarrow> bot" where
  "logger lvl msg b = b\<lparr>logs := logs b @ [(lvl, msg)]\<rparr>"

definition requests_post :: "world \<Rightarrow> call \<Rightarrow> bot \<Rightarrow> post_reply \<times> bot" where
  "requests_post w c b =
     (let b' = b\<lparr>calls := calls b @ [c]\<rparr> in (post_reply_of w (calls b'), b'))"

definition requests_get :: "world \<Rightarrow> call \<Rightarrow> bot \<Rightarrow> updates_reply \<times> bot" where
  "requests_get w c b =
     (let b' = b\<lparr>calls := calls b @ [c]\<rparr> in (updates_reply_of w (calls b'), b'))"

section \<open>ITMOCurriculumBot (telegram_bot.py)\<close>

text \<open>
  \<open>__init__\<close>: raises ValueError when the configuration is not valid. The two
  constructors it then calls (PDFProcessor, YCloudML) are outside the sources and taken
  to return.
\<close>

definition init :: "(string \<rightharpoonup> pystr) \<Rightarrow> secrets option \<Rightarrow> exn + bot" where
  "init environ module =
     (let config_status = validate_config (TELEGRAM_CONFIG environ module) (YANDEX_CONFIG environ module)
      in if \<not> valid config_status then Inl ValueError
         else Inr \<lparr>update_offset = 0, calls = [],
                   logs = [(INFO, ''ITMO Curriculum Bot initialized''), (INFO, ''Bot Configuration'')]\<rparr>)"

definition create_messages_for_yandex :: "pystr \<Rightarrow> pystr \<Rightarrow> yandex_message list" where
  "create_messages_for_yandex curriculum user_question = [System curriculum, User user_question]"

text \<open>
  The \<open>try\<close> block of \<open>get_yandex_response\<close>, an exception being the value
  \<open>Inl\<close>; the debugging \<open>print\<close>s are left out.
\<close>

definition get_yandex_response_try :: "world \<Rightarrow> pystr \<Rightarrow> bot \<Rightarrow> (exn + pystr) \<times> bot" where
  "get_yandex_response_try w user_question b =
     (let b1 = b\<lparr>calls := calls b @ [GetCurriculumText]\<rparr> in
      case curriculum_text w (calls b1) of
        None \<Rightarrow> (Inl PdfError, b1)
      | Some curriculum \<Rightarrow>
          (let messages = create_messages_for_yandex curriculum user_question;
               b2 = logger INFO ''Sending request to YandexGPT for question'' b1;
               b3 = b2\<lparr>calls := calls b2 @ [Completions messages]\<rparr>
           in case completion_reply_of w (calls b3) of
                CompletionRaises \<Rightarrow> (Inl CompletionsError, b3)
              | CompletionResult result \<Rightarrow>
                  (case result of
                     response_text # _ \<Rightarrow>
                       (Inr (fix_telegram_formatting response_text),
                        logger INFO ''Received response from YandexGPT'' b3)
                   | [] \<Rightarrow>
                       (Inr SYSTEM_PROMPTS_no_response,
                        logger ERROR ''Empty response from YandexGPT'' b3))))"

definition get_yandex_response :: "world \<Rightarrow> pystr \<Rightarrow> bot \<Rightarrow> pystr \<times> bot" where
  "get_yandex_response w user_question b =
     (case get_yandex_response_try w user_question b of
        (Inr response_text, b') \<Rightarrow> (response_text, b')
      | (Inl e, b') \<Rightarrow> (SYSTEM_PROMPTS_error, logger ERROR ''Error calling YandexGPT'' b'))"

subsection \<open>send_telegram_message\<close>

text \<open>\<open>range(i, stop, step)\<close> from \<open>i\<close> upwards; the step is the positive constant 4000.\<close>

function py_range :: "nat \<Rightarrow> nat \<Rightarrow> nat \<Rightarrow> nat list" where
  "py_range i stop step =
     (if step = 0 \<or> stop \<le> i then [] else i # py_range (i + step) stop step)"
  by pat_completeness auto
termination
  by (relation "measure (\<lambda>(i, stop, step). stop - i)") auto

declare py_range.simps [simp del]

definition max_length :: nat where
  "max_length = max_message_length (TELEGRAM_CONFIG Map.empty None)"

definition parts_of :: "pystr \<Rightarrow> pystr list" where
  "parts_of text = map (\<lambda>i. take max_length (drop i text)) (py_range 0 (length text) max_length)"

text \<open>The f-string put before every part but the first: \<open>n\<close> is \<open>i+1\<close>, \<open>n_parts\<close> is \<open>len(parts)\<close>.\<close>

definition continuation :: "nat \<Rightarrow> nat \<Rightarrow> pystr" where
  "continuation n n_parts =
     [40, 1087, 1088, 1086, 1076, 1086, 1083, 1078, 1077, 1085, 1080, 1077, 32]
     @ digits n @ ascii ''/'' @ digits n_parts @ ascii '')'' @ [10, 10]"

definition part_text :: "nat \<Rightarrow> nat \<times> pystr \<Rightarrow> pystr" where
  "part_text n_parts ip = (case ip of (i, part) \<Rightarrow> if i > 0 then continuation (i + 1) n_parts @ part else part)"

text \<open>The loop over \<open>enumerate(parts)\<close>, with its two early returns.\<close>

fun send_parts :: "world \<Rightarrow> int \<Rightarrow> nat \<Rightarrow> (nat \<times> pystr) list \<Rightarrow> bot \<Rightarrow> bool \<times> bot" where
  "send_parts w chat n_parts [] b = (True, b)"
| "send_parts w chat n_parts (ip # rest) b =
     (case requests_post w (SendMessage chat (part_text n_parts ip)) b of
        (PostJson True _, b1) \<Rightarrow> send_parts w chat n_parts rest b1
      | (PostJson False _, b1) \<Rightarrow> (False, logger ERROR ''Failed to send message part'' b1)
      | (_, b1) \<Rightarrow> (False, logger ERROR ''Error sending message part'' b1))"

definition send_telegram_message :: "world \<Rightarrow> int \<Rightarrow> pystr \<Rightarrow> bot \<Rightarrow> bool \<times> bot" where
  "send_telegram_message w chat text b =
     (if length text > max_length then
        (let parts = parts_of text in send_parts w chat (length parts) (enumerate 0 parts) b)
      else
        (case requests_post w (SendMessage chat text) b of
           (PostJson True _, b1) \<Rightarrow> (True, b1)
         | (PostJson False _, b1) \<Rightarrow> (False, logger ERROR ''Failed to send message'' b1)
         | (_, b1) \<Rightarrow> (False, logger ERROR ''Error sending message'' b1)))"

subsection \<open>get_telegram_updates\<close>

definition get_telegram_updates :: "world \<Rightarrow> bot \<Rightarrow> update list \<times> bot" where
  "get_telegram_updates w b =
     (case requests_get w (GetUpdates (update_offset b)) b of
        (GetJson ok updates, b1) \<Rightarrow>
          if ok \<and> updates \<noteq> [] then
            (case update_id (last updates) of
               Some i \<Rightarrow> (updates, b1\<lparr>update_offset := i + 1\<rparr>)
             | None \<Rightarrow> ([], logger ERROR ''Error getting Telegram updates'' b1))
          else ([], logger ERROR ''Error getting updates'' b1)
      | (_, b1) \<Rightarrow> ([], logger ERROR ''Error getting Telegram updates'' b1))"

subsection \<open>process_message\<close>

text \<open>The \<open>try\<close> block; a missing \<open>chat\<close> or \<open>from\<close> raises KeyError.\<close>

definition process_message_try :: "world \<Rightarrow> message \<Rightarrow> bot \<Rightarrow> (exn + pystr option) \<times> bot" where
  "process_message_try w m b =
     (case chat_id m of
        None \<Rightarrow> (Inl KeyError, b)
      | Some chat \<Rightarrow>
          (case from_id m of
             None \<Rightarrow> (Inl KeyError, b)
           | Some user_id \<Rightarrow>
               (let text = strip (case msg_text m of Some t \<Rightarrow> t | None \<Rightarrow> []) in
                if text = [] then (Inr None, b)
                else
                  (let b1 = logger INFO ''Processing message'' b in
                   if startswith text (ascii ''/start'') then
                     (case send_telegram_message w chat SYSTEM_PROMPTS_welcome b1 of
                        (_, b2) \<Rightarrow> (Inr (Some (ascii ''start_command_processed'')), b2))
                   else if startswith text (ascii ''/help'') then
                     (case send_telegram_message w chat SYSTEM_PROMPTS_help b1 of
                        (_, b2) \<Rightarrow> (Inr (Some (ascii ''help_command_processed'')), b2))
                   else (Inr (Some text), b1)))))"

definition process_message :: "world \<Rightarrow> message \<Rightarrow> bot \<Rightarrow> pystr option \<times> bot" where
  "process_message w m b =
     (case process_message_try w m b of
        (Inr r, b') \<Rightarrow> (r, b')
      | (Inl e, b') \<Rightarrow> (None, logger ERROR ''Error processing message'' b'))"

subsection \<open>show_thinking_animation\<close>

definition thinking_messages :: "pystr list" where
  "thinking_messages =
    [
     [129300, 32, 1040, 1085, 1072, 1083, 1080, 1079, 1080, 1088, 1091, 1102, 32, 1091, 1095,
      1077, 1073, 1085, 1099, 1077, 32, 1087, 1083, 1072, 1085, 1099, 46, 46, 46],
     [128218, 32, 1048, 1097, 1091, 32, 1080, 1085, 1092, 1086, 1088, 1084, 1072, 1094, 1080,
      1102, 32, 1074, 32, 1073, 1072, 1079, 1077, 32, 1076, 1072, 1085, 1085, 1099, 1093, 46,
      46, 46],
     [128269, 32, 1055, 1088, 1086, 1074, 1077, 1088, 1103, 1102, 32, 1076, 1077, 1090, 1072,
      1083, 1080, 32, 1087, 1088, 1086, 1075, 1088, 1072, 1084, 1084, 46, 46, 46],
     [128173, 32, 1060, 1086, 1088, 1084, 1091, 1083, 1080, 1088, 1091, 1102, 32, 1086, 1090,
      1074, 1077, 1090, 46, 46, 46]]"

text \<open>
  The loop over the status strings, \<open>message_id\<close> being the loop's variable. An
  exception inside the \<open>try\<close> is logged and breaks the loop; the pauses between
  the steps are not modelled.
\<close>

fun thinking_loop :: "world \<Rightarrow> int \<Rightarrow> pystr list \<Rightarrow> int option \<Rightarrow> bot \<Rightarrow> int option \<times> bot" where
  "thinking_loop w chat [] message_id b = (message_id, b)"
| "thinking_loop w chat (msg # rest) None b =
     (case requests_post w (SendMessage chat msg) b of
        (PostJson ok mid, b1) \<Rightarrow>
          if ok then
            (case mid of
               Some i \<Rightarrow> thinking_loop w chat rest (Some i) b1
             | None \<Rightarrow> (None, logger ERROR ''Error in thinking animation'' b1))
          else thinking_loop w chat rest None b1
      | (_, b1) \<Rightarrow> (None, logger ERROR ''Error in thinking animation'' b1))"
| "thinking_loop w chat (msg # rest) (Some i) b =
     (case requests_post w (EditMessageText chat i msg) b of
        (PostRaises, b1) \<Rightarrow> (Some i, logger ERROR ''Error in thinking animation'' b1)
      | (_, b1) \<Rightarrow> thinking_loop w chat rest (Some i) b1)"

definition show_thinking_animation :: "world \<Rightarrow> int \<Rightarrow> bot \<Rightarrow> int option \<times> bot" where
  "show_thinking_animation w chat b = thinking_loop w chat thinking_messages None b"

subsection \<open>handle_question\<close>

text \<open>
  \<open>if thinking_message_id:\<close> holds for an id that is neither None nor 0. The deletion
  is wrapped in its own \<open>try\<close>.
\<close>

definition delete_thinking :: "world \<Rightarrow> int \<Rightarrow> int option \<Rightarrow> level option \<Rightarrow> bot \<Rightarrow> bot" where
  "delete_thinking w chat thinking_message_id on_error b =
     (case thinking_message_id of
        None \<Rightarrow> b
      | Some mid \<Rightarrow>
          if mid = 0 then b
          else
            (case requests_post w (DeleteMessage chat mid) b of
               (PostRaises, b1) \<Rightarrow>
                 (case on_error of
                    Some lvl \<Rightarrow> logger lvl ''Could not delete thinking message'' b1
                  | None \<Rightarrow> b1)
             | (_, b1) \<Rightarrow> b1))"

definition error_message :: pystr where
  "error_message =
     [1048, 1079, 1074, 1080, 1085, 1080, 1090, 1077, 44, 32, 1087, 1088, 1086, 1080, 1079,
      1086, 1096, 1083, 1072, 32, 1086, 1096, 1080, 1073, 1082, 1072, 32, 1087, 1088, 1080, 32,
      1086, 1073, 1088, 1072, 1073, 1086, 1090, 1082, 1077, 32, 1074, 1072, 1096, 1077, 1075,
      1086, 32, 1074, 1086, 1087, 1088, 1086, 1089, 1072, 46, 32, 1055, 1086, 1087, 1088, 1086,
      1073, 1091, 1081, 1090, 1077, 32, 1087, 1086, 1079, 1078, 1077, 46]"

text \<open>The \<open>except\<close> block of \<open>handle_question\<close>.\<close>

definition handle_question_except :: "world \<Rightarrow> int \<Rightarrow> int option \<Rightarrow> bot \<Rightarrow> bot" where
  "handle_question_except w chat thinking_message_id b =
     (let b1 = logger ERROR ''Error handling question'' b;
          b2 = delete_thinking w chat thinking_message_id None b1
      in snd (send_telegram_message w chat error_message b2))"

text \<open>
  In the \<open>try\<close> block only the typing signal can raise: the animation, the completion
  call, the deletion and the send each catch their own exceptions.
\<close>

definition handle_question :: "world \<Rightarrow> int \<Rightarrow> pystr \<Rightarrow> bot \<Rightarrow> bot" where
  "handle_question w chat question b =
     (case requests_post w (SendChatAction chat) b of
        (PostRaises, b1) \<Rightarrow> handle_question_except w chat None b1
      | (_, b1) \<Rightarrow>
          (case show_thinking_animation w chat b1 of
             (thinking_message_id, b2) \<Rightarrow>
               (case get_yandex_response w question b2 of
                  (response, b3) \<Rightarrow>
                    (let b4 = delete_thinking w chat thinking_message_id (Some WARNING) b3;
                         b5 = snd (send_telegram_message w chat response b4)
                     in logger INFO ''Successfully handled question'' b5))))"

subsection \<open>run\<close>

text \<open>
  The body of \<open>for update in updates\<close>. Reading \<open>message['chat']['id']\<close> is not inside
  any \<open>try\<close> of its own: the KeyError leaves the loop.
\<close>

definition handle_update :: "world \<Rightarrow> update \<Rightarrow> bot \<Rightarrow> exn option \<times> bot" where
  "handle_update w u b =
     (case message u of
        None \<Rightarrow> (None, b)
      | Some m \<Rightarrow>
          (case chat_id m of
             None \<Rightarrow> (Some KeyError, b)
           | Some chat \<Rightarrow>
               (case process_message w m b of
                  (question, b1) \<Rightarrow>
                    (case question of
                       None \<Rightarrow> (None, b1)
                     | Some q \<Rightarrow>
                         if q \<noteq> [] \<and> q \<notin> set [ascii ''start_command_processed'',
                                                 ascii ''help_command_processed'']
                         then (None, handle_question w chat q b1)
                         else (None, b1)))))"

fun for_updates :: "world \<Rightarrow> update list \<Rightarrow> bot \<Rightarrow> exn option \<times> bot" where
  "for_updates w [] b = (None, b)"
| "for_updates w (u # us) b =
     (case handle_update w u b of
        (Some e, b1) \<Rightarrow> (Some e, b1)
      | (None, b1) \<Rightarrow> for_updates w us b1)"

text \<open>
  One turn of \<open>while True\<close>: poll, handle the batch, and on an exception log it. The
  sleeps and KeyboardInterrupt are not modelled.
\<close>

definition run_iteration :: "world \<Rightarrow> bot \<Rightarrow> bot" where
  "run_iteration w b =
     (case get_telegram_updates w b of
        (updates, b1) \<Rightarrow>
          (case for_updates w updates b1 of
             (None, b2) \<Rightarrow> b2
           | (Some e, b2) \<Rightarrow> logger ERROR ''Error in main loop'' b2))"

text \<open>The loop never ends by itself; \<open>run n\<close> is its first \<open>n\<close> turns.\<close>

fun run :: "nat \<Rightarrow> world \<Rightarrow> bot \<Rightarrow> bot" where
  "run 0 w b = b"
| "run (Suc n) w b = run n w (run_iteration w b)"

section \<open>Basic facts about the state\<close>

lemma logger_calls [simp]: "calls (logger lvl msg b) = calls b"
  by (simp add: logger_def)

lemma logger_update_offset [simp]: "update_offset (logger lvl msg b) = update_offset b"
  by (simp add: logger_def)

lemma logger_logs [simp]: "logs (logger lvl msg b) = logs b @ [(lvl, msg)]"
  by (simp add: logger_def)

lemma requests_post_eq:
  "requests_post w c b = (post_reply_of w (calls b @ [c]), b\<lparr>calls := calls b @ [c]\<rparr>)"
  by (simp add: requests_post_def Let_def)

lemma requests_get_eq:
  "requests_get w c b = (updates_reply_of w (calls b @ [c]), b\<lparr>calls := calls b @ [c]\<rparr>)"
  by (simp add: requests_get_def Let_def)

text \<open>\<open>response.json().get('ok')\<close> is truthy and nothing was raised.\<close>

definition reply_ok :: "post_reply \<Rightarrow> bool" where
  "reply_ok r = (case r of PostJson ok _ \<Rightarrow> ok | _ \<Rightarrow> False)"

lemma reply_ok_iff: "reply_ok r \<longleftrightarrow> (\<exists>m. r = PostJson True m)"
  by (cases r) (auto simp: reply_ok_def)

section \<open>Startup with the placeholder credentials\<close>

text \<open>
  Claim C2. With no secrets module and no environment variable, the three credentials
  are the placeholders \<open>YOUR_TELEGRAM_BOT_TOKEN\<close>, \<open>YOUR_YANDEX_FOLDER_ID\<close> and
  \<open>YOUR_YANDEX_AUTH_TOKEN\<close>. \<open>validate_config\<close> compares them with
  \<open>YOUR_TELEGRAM_TOKEN\<close>, \<open>YOUR_FOLDER_ID\<close> and \<open>YOUR_AUTH_TOKEN\<close>, so it reports
  no issue, and the bot is constructed instead of raising.
\<close>

theorem placeholder_credentials_pass_validation:
  "validate_config (TELEGRAM_CONFIG Map.empty None) (YANDEX_CONFIG Map.empty None)
     = \<lparr>valid = True, issues = []\<rparr>
   \<and> init Map.empty None
     = Inr \<lparr>update_offset = 0, calls = [],
            logs = [(INFO, ''ITMO Curriculum Bot initialized''), (INFO, ''Bot Configuration'')]\<rparr>"
  by (simp add: init_def validate_config_def TELEGRAM_CONFIG_def YANDEX_CONFIG_def getenv_def
      import_secrets_def ascii_def)

section \<open>Chunked send\<close>

text \<open>
  The texts \<open>send_telegram_message\<close> works through for a long \<open>text\<close>: the parts, each
  but the first with its continuation marker in front.
\<close>

definition payloads_of :: "pystr \<Rightarrow> pystr list" where
  "payloads_of text = map (part_text (length (parts_of text))) (enumerate 0 (parts_of text))"

text \<open>Worlds and a start state to evaluate the bot on.\<close>

definition accepting_world :: world where
  "accepting_world =
     \<lparr>post_reply_of = (\<lambda>tr. PostJson True (Some 1)),
      updates_reply_of = (\<lambda>tr. GetJson True []),
      completion_reply_of = (\<lambda>tr. CompletionResult []),
      curriculum_text = (\<lambda>tr. Some [])\<rparr>"

definition bot0 :: bot where
  "bot0 = \<lparr>update_offset = 0, calls = [], logs = []\<rparr>"

lemma max_length_eq: "max_length = 4000"
  by (simp add: max_length_def TELEGRAM_CONFIG_def)

lemma ceil_div_step:
  fixes d step :: nat
  assumes "0 < d" "0 < step"
  shows "(d + step - 1) div step = Suc ((d - step + step - 1) div step)"
proof -
  have a: "(d + step - 1) div step = Suc ((d - 1) div step)"
  proof -
    have e: "d + step - 1 = (d - 1) + step" using assms by simp
    have "(d - 1 + step) div step = (d - 1) div step + 1"
      by (rule div_add_self2) (use assms in simp)
    then show ?thesis unfolding e by (simp only: Suc_eq_plus1)
  qed
  have b: "(d - step + step - 1) div step = (d - 1) div step"
  proof (cases "step \<le> d")
    case True
    then show ?thesis by simp
  next
    case False
    then have "d - step = 0" "d - 1 < step" by simp_all
    then show ?thesis using assms by simp
  qed
  show ?thesis using a b by simp
qed

lemma py_range_eq:
  "0 < step \<Longrightarrow> py_range i stop step = map (\<lambda>k. i + k * step) [0..<(stop - i + step - 1) div step]"
proof (induction i stop step rule: py_range.induct)
  case (1 i stop step)
  show ?case
  proof (cases "stop \<le> i")
    case True
    then have "(stop - i + step - 1) div step = 0" using 1(2) by simp
    with True show ?thesis by (simp add: py_range.simps)
  next
    case False
    let ?n = "(stop - (i + step) + step - 1) div step"
    have "(stop - i + step - 1) div step = Suc ((stop - i - step + step - 1) div step)"
      using False 1(2) by (intro ceil_div_step) simp_all
    then have n: "(stop - i + step - 1) div step = Suc ?n"
      by (simp add: diff_diff_left)
    have "py_range i stop step = i # py_range (i + step) stop step"
      using False 1(2) by (subst py_range.simps) simp
    also have "py_range (i + step) stop step = map (\<lambda>k. i + step + k * step) [0..<?n]"
      using 1 False by simp
    also have "i # map (\<lambda>k. i + step + k * step) [0..<?n] = map (\<lambda>k. i + k * step) [0..<Suc ?n]"
      by (simp add: map_upt_Suc add.assoc del: upt_Suc)
    finally show ?thesis using n by simp
  qed
qed

lemma length_parts_of: "length (parts_of text) = (length text + max_length - 1) div max_length"
  by (simp add: parts_of_def py_range_eq max_length_eq)


lemma send_parts_ok_step:
  "reply_ok (post_reply_of w (calls b @ [SendMessage chat (part_text n ip)])) \<Longrightarrow>
   send_parts w chat n (ip # rest) b
     = send_parts w chat n rest (b\<lparr>calls := calls b @ [SendMessage chat (part_text n ip)]\<rparr>)"
  by (auto simp: requests_post_eq reply_ok_def split: post_reply.splits bool.splits)

lemma send_parts_fail_step:
  "\<not> reply_ok (post_reply_of w (calls b @ [SendMessage chat (part_text n ip)])) \<Longrightarrow>
   fst (send_parts w chat n (ip # rest) b) = False
   \<and> calls (snd (send_parts w chat n (ip # rest) b)) = calls b @ [SendMessage chat (part_text n ip)]
   \<and> update_offset (snd (send_parts w chat n (ip # rest) b)) = update_offset b"
  by (auto simp: requests_post_eq reply_ok_def split: post_reply.splits bool.splits)

lemma send_parts_prefix:
  "\<exists>k\<le>length ps. calls (snd (send_parts w chat n ps b))
      = calls b @ map (\<lambda>ip. SendMessage chat (part_text n ip)) (take k ps)"
proof (induction ps arbitrary: b)
  case Nil
  then show ?case by simp
next
  case (Cons ip rest)
  let ?c = "SendMessage chat (part_text n ip)"
  show ?case
  proof (cases "reply_ok (post_reply_of w (calls b @ [?c]))")
    case True
    obtain k where k: "k \<le> length rest"
      "calls (snd (send_parts w chat n rest (b\<lparr>calls := calls b @ [?c]\<rparr>)))
        = calls (b\<lparr>calls := calls b @ [?c]\<rparr>) @ map (\<lambda>ip. SendMessage chat (part_text n ip)) (take k rest)"
      using Cons.IH by blast
    show ?thesis
      by (rule exI[of _ "Suc k"]) (use k True in \<open>simp add: send_parts_ok_step del: send_parts.simps\<close>)
  next
    case False
    show ?thesis
      by (rule exI[of _ "Suc 0"])
        (use send_parts_fail_step[OF False] in \<open>simp del: send_parts.simps\<close>)
  qed
qed

lemma send_parts_update_offset:
  "update_offset (snd (send_parts w chat n ps b)) = update_offset b"
proof (induction ps arbitrary: b)
  case Nil
  then show ?case by simp
next
  case (Cons ip rest)
  show ?case
  proof (cases "reply_ok (post_reply_of w (calls b @ [SendMessage chat (part_text n ip)]))")
    case True
    then show ?thesis using Cons.IH by (simp add: send_parts_ok_step del: send_parts.simps)
  next
    case False
    then show ?thesis
      using send_parts_fail_step[OF False] by (simp del: send_parts.simps)
  qed
qed


lemma send_parts_fail_at:
  "k < length ps \<Longrightarrow>
   (\<And>j. j < k \<Longrightarrow>
      reply_ok (post_reply_of w (calls b @ map (\<lambda>ip. SendMessage chat (part_text n ip)) (take (Suc j) ps)))) \<Longrightarrow>
   \<not> reply_ok (post_reply_of w (calls b @ map (\<lambda>ip. SendMessage chat (part_text n ip)) (take (Suc k) ps))) \<Longrightarrow>
   fst (send_parts w chat n ps b) = False
   \<and> calls (snd (send_parts w chat n ps b))
       = calls b @ map (\<lambda>ip. SendMessage chat (part_text n ip)) (take (Suc k) ps)"
proof (induction ps arbitrary: b k)
  case Nil
  then show ?case by simp
next
  case (Cons ip rest)
  let ?f = "\<lambda>ip. SendMessage chat (part_text n ip)"
  let ?b1 = "b\<lparr>calls := calls b @ [?f ip]\<rparr>"
  show ?case
  proof (cases k)
    case 0
    then have bad: "\<not> reply_ok (post_reply_of w (calls b @ [?f ip]))"
      using Cons.prems(3) by simp
    show ?thesis
      using send_parts_fail_step[OF bad] 0 by (simp del: send_parts.simps)
  next
    case (Suc k')
    have ok0: "reply_ok (post_reply_of w (calls b @ [?f ip]))"
      using Cons.prems(2)[of 0] Suc by simp
    have "fst (send_parts w chat n rest ?b1) = False
       \<and> calls (snd (send_parts w chat n rest ?b1)) = calls ?b1 @ map ?f (take (Suc k') rest)"
    proof (rule Cons.IH)
      show "k' < length rest" using Cons.prems(1) Suc by simp
    next
      fix j assume "j < k'"
      then show "reply_ok (post_reply_of w (calls ?b1 @ map ?f (take (Suc j) rest)))"
        using Cons.prems(2)[of "Suc j"] Suc by simp
    next
      show "\<not> reply_ok (post_reply_of w (calls ?b1 @ map ?f (take (Suc k') rest)))"
        using Cons.prems(3) Suc by simp
    qed
    then show ?thesis using ok0 Suc by (simp add: send_parts_ok_step del: send_parts.simps)
  qed
qed


lemma length_payloads_of: "length (payloads_of text) = (length text + max_length - 1) div max_length"
  by (simp add: payloads_of_def length_parts_of)


section \<open>What send_telegram_message sends\<close>



lemma enumerate_parts_8001:
  "enumerate 0 (parts_of (replicate 8001 97))
     = [(0, replicate 4000 97), (1, replicate 4000 97), (2, [97])]"
  by (simp add: parts_of_def max_length_eq py_range.simps numeral_2_eq_2[symmetric])


lemma length_parts_8001: "length (parts_of (replicate 8001 97)) = 3"
  by (simp add: length_parts_of max_length_eq)


lemma payloads_8001:
  "payloads_of (replicate 8001 97)
     = [replicate 4000 97, continuation 2 3 @ replicate 4000 97, continuation 3 3 @ [97]]"
  by (simp add: payloads_of_def enumerate_parts_8001 length_parts_8001 part_text_def
      numeral_2_eq_2[symmetric])









section \<open>A chunked send that fails\<close>

definition second_post_fails :: world where
  "second_post_fails =
     \<lparr>post_reply_of = (\<lambda>tr. if length tr = 2 then PostRaises else PostJson True (Some 1)),
      updates_reply_of = (\<lambda>tr. GetJson True []),
      completion_reply_of = (\<lambda>tr. CompletionResult []),
      curriculum_text = (\<lambda>tr. Some [])\<rparr>"

text \<open>
  Claim C6. In a chunked send, let the call for slice \<open>k\<close> (counting from 0) be the
  first whose reply is not an accepted one (a raised exception, a body that is not JSON,
  or a JSON reply whose \<open>ok\<close> is not true). Then \<open>send_telegram_message\<close> returns
  False, and the calls it has made are exactly the sends of the slices \<open>0..k\<close>: no
  further slice is sent, and nothing is issued that would edit or delete a slice
  already sent.
\<close>

theorem chunked_send_stops_at_first_failure:
  assumes "max_length < length text"
    and "k < length (payloads_of text)"
    and "\<forall>j<k. reply_ok (post_reply_of w
            (calls b @ map (SendMessage chat) (take (Suc j) (payloads_of text))))"
    and "\<not> reply_ok (post_reply_of w
            (calls b @ map (SendMessage chat) (take (Suc k) (payloads_of text))))"
  shows "fst (send_telegram_message w chat text b) = False
       \<and> calls (snd (send_telegram_message w chat text b))
           = calls b @ map (SendMessage chat) (take (Suc k) (payloads_of text))
       \<and> length (calls (snd (send_telegram_message w chat text b))) = length (calls b) + Suc k"
proof -
  let ?ps = "enumerate 0 (parts_of text)"
  let ?f = "\<lambda>ip. SendMessage chat (part_text (length (parts_of text)) ip)"
  have m: "\<And>n. map ?f (take n ?ps) = map (SendMessage chat) (take n (payloads_of text))"
    by (simp add: payloads_of_def take_map)
  have "fst (send_parts w chat (length (parts_of text)) ?ps b) = False
      \<and> calls (snd (send_parts w chat (length (parts_of text)) ?ps b))
          = calls b @ map ?f (take (Suc k) ?ps)"
  proof (rule send_parts_fail_at)
    show "k < length ?ps" using assms(2) by (simp add: payloads_of_def)
  next
    fix j assume "j < k"
    then show "reply_ok (post_reply_of w (calls b @ map ?f (take (Suc j) ?ps)))"
      using assms(3) unfolding m by blast
  next
    show "\<not> reply_ok (post_reply_of w (calls b @ map ?f (take (Suc k) ?ps)))"
      using assms(4) unfolding m .
  qed
  then have "fst (send_telegram_message w chat text b) = False
       \<and> calls (snd (send_telegram_message w chat text b))
           = calls b @ map (SendMessage chat) (take (Suc k) (payloads_of text))"
    using assms(1) by (simp add: send_telegram_message_def Let_def m del: take_Suc_Cons)
  then show ?thesis using assms(2) by simp
qed

theorem chunked_send_stops_at_first_failure_witness:
  "max_length < length (replicate 8001 (97::nat))
   \<and> (1::nat) < length (payloads_of (replicate 8001 97))
   \<and> reply_ok (post_reply_of second_post_fails [SendMessage 1 (replicate 4000 97)])
   \<and> \<not> reply_ok (post_reply_of second_post_fails
          [SendMessage 1 (replicate 4000 97), SendMessage 1 (continuation 2 3 @ replicate 4000 97)])
   \<and> fst (send_telegram_message second_post_fails 1 (replicate 8001 97) bot0) = False
   \<and> calls (snd (send_telegram_message second_post_fails 1 (replicate 8001 97) bot0))
       = [SendMessage 1 (replicate 4000 97), SendMessage 1 (continuation 2 3 @ replicate 4000 97)]"
proof -
  have 1: "max_length < length (replicate 8001 (97::nat))" by (simp add: max_length_eq)
  have 2: "(1::nat) < length (payloads_of (replicate 8001 97))" by (simp add: payloads_8001)
  have 3: "\<forall>j<1. reply_ok (post_reply_of second_post_fails
       (calls bot0 @ map (SendMessage 1) (take (Suc j) (payloads_of (replicate 8001 97)))))"
    by (simp add: payloads_8001 bot0_def second_post_fails_def reply_ok_def)
  have 4: "\<not> reply_ok (post_reply_of second_post_fails
       (calls bot0 @ map (SendMessage 1) (take (Suc 1) (payloads_of (replicate 8001 97)))))"
    by (simp add: payloads_8001 bot0_def second_post_fails_def reply_ok_def)
  show ?thesis
    using chunked_send_stops_at_first_failure[OF 1 2 3 4] 1 2
    by (simp add: payloads_8001 bot0_def second_post_fails_def reply_ok_def)
qed
section \<open>What each operation leaves unchanged, and what it adds\<close>

lemma send_short:
  "length text \<le> max_length \<Longrightarrow>
   calls (snd (send_telegram_message w chat text b)) = calls b @ [SendMessage chat text]"
  by (auto simp: send_telegram_message_def requests_post_eq split: post_reply.splits bool.splits)

lemma send_update_offset [simp]:
  "update_offset (snd (send_telegram_message w chat text b)) = update_offset b"
  by (auto simp: send_telegram_message_def requests_post_eq Let_def send_parts_update_offset
      split: post_reply.splits bool.splits)

text \<open>The texts a send goes through, whatever the length.\<close>

definition texts_to_send :: "pystr \<Rightarrow> pystr list" where
  "texts_to_send text = (if length text > max_length then payloads_of text else [text])"

lemma texts_to_send_nonempty: "texts_to_send text \<noteq> []"
proof (cases "length text > max_length")
  case True
  then have "0 < (length text + max_length - 1) div max_length"
    by (simp add: max_length_eq div_greater_zero_iff)
  then have "0 < length (payloads_of text)" by (simp add: length_payloads_of)
  then show ?thesis using True by (auto simp: texts_to_send_def)
next
  case False
  then show ?thesis by (simp add: texts_to_send_def)
qed

lemma send_parts_first:
  "ps \<noteq> [] \<Longrightarrow> \<exists>k. 0 < k \<and> k \<le> length ps \<and> calls (snd (send_parts w chat n ps b))
      = calls b @ map (\<lambda>ip. SendMessage chat (part_text n ip)) (take k ps)"
proof (cases ps)
  case Nil
  assume "ps \<noteq> []" with Nil show ?thesis by simp
next
  case (Cons ip rest)
  let ?c = "SendMessage chat (part_text n ip)"
  show ?thesis
  proof (cases "reply_ok (post_reply_of w (calls b @ [?c]))")
    case True
    obtain k where k: "k \<le> length rest"
      "calls (snd (send_parts w chat n rest (b\<lparr>calls := calls b @ [?c]\<rparr>)))
        = calls (b\<lparr>calls := calls b @ [?c]\<rparr>) @ map (\<lambda>ip. SendMessage chat (part_text n ip)) (take k rest)"
      using send_parts_prefix by blast
    show ?thesis
      by (rule exI[of _ "Suc k"]) (use k True Cons in \<open>simp add: send_parts_ok_step del: send_parts.simps\<close>)
  next
    case False
    show ?thesis
      by (rule exI[of _ "Suc 0"])
        (use send_parts_fail_step[OF False] Cons in \<open>simp del: send_parts.simps\<close>)
  qed
qed

lemma send_calls:
  "\<exists>k. 0 < k \<and> k \<le> length (texts_to_send text) \<and>
     calls (snd (send_telegram_message w chat text b))
       = calls b @ map (SendMessage chat) (take k (texts_to_send text))"
proof (cases "length text > max_length")
  case True
  have ne: "enumerate 0 (parts_of text) \<noteq> []"
    using texts_to_send_nonempty[of "text"] True by (auto simp: texts_to_send_def payloads_of_def)
  obtain k where "0 < k" "k \<le> length (enumerate 0 (parts_of text))"
    "calls (snd (send_parts w chat (length (parts_of text)) (enumerate 0 (parts_of text)) b))
       = calls b @ map (\<lambda>ip. SendMessage chat (part_text (length (parts_of text)) ip))
                     (take k (enumerate 0 (parts_of text)))"
    using send_parts_first[OF ne] by blast
  then show ?thesis using True
    by (intro exI[of _ k])
      (simp add: send_telegram_message_def Let_def payloads_of_def take_map texts_to_send_def)
next
  case False
  then show ?thesis
    by (intro exI[of _ 1]) (simp add: send_short texts_to_send_def)
qed


lemma thinking_loop_update_offset [simp]:
  "update_offset (snd (thinking_loop w chat msgs mid b)) = update_offset b"
proof (induction msgs arbitrary: mid b)
  case Nil
  then show ?case by simp
next
  case (Cons msg rest)
  show ?case
  proof (cases mid)
    case None
    then show ?thesis using Cons.IH
      by (auto simp: requests_post_eq split: post_reply.splits option.splits)
  next
    case (Some i)
    then show ?thesis using Cons.IH
      by (auto simp: requests_post_eq split: post_reply.splits option.splits)
  qed
qed

lemma thinking_loop_extends:
  "\<exists>cs. calls (snd (thinking_loop w chat msgs mid b)) = calls b @ cs"
proof (induction msgs arbitrary: mid b)
  case Nil
  then show ?case by simp
next
  case (Cons msg rest)
  have ih: "\<exists>cs. calls (snd (thinking_loop w chat rest mid' (b\<lparr>calls := calls b @ [c]\<rparr>))) = calls b @ cs"
    for mid' c
  proof -
    obtain cs where "calls (snd (thinking_loop w chat rest mid' (b\<lparr>calls := calls b @ [c]\<rparr>)))
        = calls (b\<lparr>calls := calls b @ [c]\<rparr>) @ cs"
      using Cons.IH by blast
    then show ?thesis by simp
  qed
  show ?case
  proof (cases mid)
    case None
    then show ?thesis using ih
      by (auto simp: requests_post_eq split: post_reply.splits option.splits)
  next
    case (Some i)
    then show ?thesis using ih
      by (auto simp: requests_post_eq split: post_reply.splits option.splits)
  qed
qed

lemma thinking_loop_prefix:
  "prefix (calls b) (calls (snd (thinking_loop w chat msgs mid b)))"
  using thinking_loop_extends[of w chat msgs mid b] by (auto simp: prefix_def)

lemma get_yandex_response_update_offset [simp]:
  "update_offset (snd (get_yandex_response w q b)) = update_offset b"
  by (auto simp: get_yandex_response_def get_yandex_response_try_def Let_def
      split: option.splits completion_reply.splits list.splits sum.splits)

lemma get_yandex_response_calls:
  "calls (snd (get_yandex_response w q b)) =
     (case curriculum_text w (calls b @ [GetCurriculumText]) of
        None \<Rightarrow> calls b @ [GetCurriculumText]
      | Some c \<Rightarrow> calls b @ [GetCurriculumText, Completions (create_messages_for_yandex c q)])"
  by (auto simp: get_yandex_response_def get_yandex_response_try_def Let_def
      split: option.splits completion_reply.splits list.splits sum.splits)


lemma delete_thinking_update_offset [simp]:
  "update_offset (delete_thinking w chat mid on_error b) = update_offset b"
  by (auto simp: delete_thinking_def requests_post_eq split: option.splits post_reply.splits)

lemma delete_thinking_calls:
  "calls (delete_thinking w chat mid on_error b) =
     (case mid of None \<Rightarrow> calls b
      | Some i \<Rightarrow> if i = 0 then calls b else calls b @ [DeleteMessage chat i])"
  by (auto simp: delete_thinking_def requests_post_eq split: option.splits post_reply.splits)

lemma handle_question_except_update_offset [simp]:
  "update_offset (handle_question_except w chat mid b) = update_offset b"
  by (simp add: handle_question_except_def Let_def)

lemma handle_question_update_offset [simp]:
  "update_offset (handle_question w chat q b) = update_offset b"
  by (auto simp: handle_question_def show_thinking_animation_def requests_post_eq Let_def
      split: post_reply.splits prod.splits)
    (metis thinking_loop_update_offset get_yandex_response_update_offset snd_conv
      bot.select_convs(1) bot.surjective bot.update_convs(2))+

lemma process_message_update_offset [simp]:
  "update_offset (snd (process_message w m b)) = update_offset b"
  by (auto simp: process_message_def process_message_try_def Let_def
      split: option.splits sum.splits prod.splits if_splits)
    (metis send_update_offset snd_conv logger_update_offset)+

lemma handle_update_update_offset [simp]:
  "update_offset (snd (handle_update w u b)) = update_offset b"
  by (auto simp: handle_update_def split: option.splits prod.splits)
    (metis process_message_update_offset snd_conv)+

lemma for_updates_update_offset [simp]:
  "update_offset (snd (for_updates w us b)) = update_offset b"
proof (induction us arbitrary: b)
  case Nil
  then show ?case by simp
next
  case (Cons u us)
  obtain e b1 where h: "handle_update w u b = (e, b1)" by (cases "handle_update w u b")
  then have "update_offset b1 = update_offset b"
    using handle_update_update_offset[of w u b] by simp
  then show ?case using h Cons.IH[of b1] by (cases e) simp_all
qed

subsection \<open>handle_question\<close>

lemma length_SYSTEM_PROMPTS_error: "length SYSTEM_PROMPTS_error = 74"
  by (simp add: SYSTEM_PROMPTS_error_def)

lemma length_SYSTEM_PROMPTS_no_response: "length SYSTEM_PROMPTS_no_response = 64"
  by (simp add: SYSTEM_PROMPTS_no_response_def)

lemma length_SYSTEM_PROMPTS_welcome: "length SYSTEM_PROMPTS_welcome = 391"
  by (simp add: SYSTEM_PROMPTS_welcome_def)

lemma length_SYSTEM_PROMPTS_help: "length SYSTEM_PROMPTS_help = 453"
  by (simp add: SYSTEM_PROMPTS_help_def)

lemma error_message_eq: "error_message = SYSTEM_PROMPTS_error"
  by (simp add: error_message_def SYSTEM_PROMPTS_error_def)

lemma handle_question_except_calls:
  "calls (handle_question_except w chat mid b) =
     (case mid of None \<Rightarrow> calls b | Some i \<Rightarrow> if i = 0 then calls b else calls b @ [DeleteMessage chat i])
     @ [SendMessage chat error_message]"
  by (simp add: handle_question_except_def Let_def send_short delete_thinking_calls
      error_message_eq length_SYSTEM_PROMPTS_error max_length_eq split: option.splits)

text \<open>The state in which \<open>handle_question\<close> calls the completion client.\<close>

definition before_completion :: "world \<Rightarrow> int \<Rightarrow> bot \<Rightarrow> int option \<times> bot" where
  "before_completion w chat b = show_thinking_animation w chat (b\<lparr>calls := calls b @ [SendChatAction chat]\<rparr>)"

lemma handle_question_calls:
  assumes "post_reply_of w (calls b @ [SendChatAction chat]) \<noteq> PostRaises"
  shows "calls (handle_question w chat q b) =
     calls (snd (send_telegram_message w chat
       (fst (get_yandex_response w q (snd (before_completion w chat b))))
       (delete_thinking w chat (fst (before_completion w chat b)) (Some WARNING)
          (snd (get_yandex_response w q (snd (before_completion w chat b)))))))"
  using assms
  by (cases "post_reply_of w (calls b @ [SendChatAction chat])")
    (simp_all add: handle_question_def before_completion_def requests_post_eq Let_def split: prod.splits)

lemma handle_question_raises:
  assumes "post_reply_of w (calls b @ [SendChatAction chat]) = PostRaises"
  shows "handle_question w chat q b
     = handle_question_except w chat None (b\<lparr>calls := calls b @ [SendChatAction chat]\<rparr>)"
  using assms by (simp add: handle_question_def requests_post_eq)

lemma get_yandex_response_raises:
  assumes "\<forall>tr. completion_reply_of w tr = CompletionRaises"
  shows "fst (get_yandex_response w q b) = SYSTEM_PROMPTS_error"
  using assms
  by (auto simp: get_yandex_response_def get_yandex_response_try_def Let_def split: option.splits)

lemma get_yandex_response_empty:
  assumes "\<forall>tr. completion_reply_of w tr = CompletionResult []" "\<forall>tr. curriculum_text w tr \<noteq> None"
  shows "fst (get_yandex_response w q b) = SYSTEM_PROMPTS_no_response"
proof -
  obtain c where "curriculum_text w (calls b @ [GetCurriculumText]) = Some c"
    using assms(2) by blast
  then show ?thesis
    using assms(1) by (simp add: get_yandex_response_def get_yandex_response_try_def Let_def)
qed

subsection \<open>show_thinking_animation\<close>






lemma thinking_messages_nth:
  "thinking_messages = [thinking_messages ! 0, thinking_messages ! 1, thinking_messages ! 2, thinking_messages ! 3]"
  by (simp add: thinking_messages_def)



lemma handle_question_deletes_then_sends:
  assumes "post_reply_of w (calls b @ [SendChatAction chat]) \<noteq> PostRaises"
    and "fst (before_completion w chat b) = Some mid" and "mid \<noteq> 0"
  shows "\<exists>k. 0 < k
      \<and> k \<le> length (texts_to_send (fst (get_yandex_response w q (snd (before_completion w chat b)))))
      \<and> calls (handle_question w chat q b)
          = calls (snd (get_yandex_response w q (snd (before_completion w chat b))))
            @ DeleteMessage chat mid
            # map (SendMessage chat)
                (take k (texts_to_send (fst (get_yandex_response w q (snd (before_completion w chat b))))))"
proof -
  let ?r = "get_yandex_response w q (snd (before_completion w chat b))"
  let ?b4 = "delete_thinking w chat (Some mid) (Some WARNING) (snd ?r)"
  have d: "calls ?b4 = calls (snd ?r) @ [DeleteMessage chat mid]"
    using assms(3) by (simp add: delete_thinking_calls)
  obtain k where k: "0 < k" "k \<le> length (texts_to_send (fst ?r))"
    "calls (snd (send_telegram_message w chat (fst ?r) ?b4))
       = calls ?b4 @ map (SendMessage chat) (take k (texts_to_send (fst ?r)))"
    using send_calls[of "fst ?r" w chat ?b4] by blast
  have "calls (handle_question w chat q b) = calls (snd (send_telegram_message w chat (fst ?r) ?b4))"
    using assms(1,2) by (simp add: handle_question_calls)
  then show ?thesis using k d by (intro exI[of _ k]) simp
qed

subsection \<open>process_message\<close>

text \<open>The two strings \<open>process_message\<close> returns for a command, which \<open>run\<close> skips.\<close>

definition sentinels :: "pystr list" where
  "sentinels = [ascii ''start_command_processed'', ascii ''help_command_processed'']"

lemma sentinel_not_command:
  assumes "t \<in> set sentinels"
  shows "t \<noteq> []" "\<not> startswith t (ascii ''/start'')" "\<not> startswith t (ascii ''/help'')"
  using assms by (auto simp: sentinels_def startswith_def ascii_def)

lemma process_message_sentinel:
  assumes "chat_id m = Some chat" "from_id m = Some user"
    and "strip (case msg_text m of Some t \<Rightarrow> t | None \<Rightarrow> []) \<in> set sentinels"
  shows "process_message w m b
     = (Some (strip (case msg_text m of Some t \<Rightarrow> t | None \<Rightarrow> [])),
        logger INFO ''Processing message'' b)"
  using assms sentinel_not_command[OF assms(3)]
  by (simp add: process_message_def process_message_try_def Let_def)

lemma process_message_no_chat:
  "chat_id m = None \<Longrightarrow> process_message w m b = (None, logger ERROR ''Error processing message'' b)"
  by (simp add: process_message_def process_message_try_def)

lemma process_message_no_from:
  "chat_id m = Some chat \<Longrightarrow> from_id m = None \<Longrightarrow>
   process_message w m b = (None, logger ERROR ''Error processing message'' b)"
  by (simp add: process_message_def process_message_try_def)

subsection \<open>run\<close>

text \<open>An update whose message has no chat id: \<open>message['chat']['id']\<close> raises in \<open>run\<close>.\<close>

definition lacks_chat :: "update \<Rightarrow> bool" where
  "lacks_chat u = (case message u of Some m \<Rightarrow> chat_id m = None | None \<Rightarrow> False)"

lemma handle_update_raises_iff:
  "fst (handle_update w u b) = (if lacks_chat u then Some KeyError else None)"
  by (auto simp: handle_update_def lacks_chat_def split: option.splits prod.splits)

lemma handle_update_lacks_chat:
  "lacks_chat u \<Longrightarrow> handle_update w u b = (Some KeyError, b)"
  by (auto simp: handle_update_def lacks_chat_def split: option.splits)

lemma for_updates_append:
  "\<forall>u\<in>set us. \<not> lacks_chat u \<Longrightarrow>
   fst (for_updates w us b) = None
   \<and> for_updates w (us @ vs) b = for_updates w vs (snd (for_updates w us b))"
proof (induction us arbitrary: b)
  case Nil
  then show ?case by simp
next
  case (Cons u us)
  obtain e b1 where h: "handle_update w u b = (e, b1)" by (cases "handle_update w u b")
  have "e = None" using handle_update_raises_iff[of w u b] h Cons.prems by simp
  then show ?case using h Cons.IH[of b1] Cons.prems by simp
qed

lemma for_updates_raises:
  assumes "\<forall>u\<in>set us. \<not> lacks_chat u" "lacks_chat u"
  shows "for_updates w (us @ u # vs) b = (Some KeyError, snd (for_updates w us b))"
  using for_updates_append[OF assms(1), of w b "u # vs"] handle_update_lacks_chat[OF assms(2)]
  by simp

lemma process_message_catches:
  "fst (process_message_try w m b) = Inl e \<Longrightarrow>
   process_message w m b
     = (None, logger ERROR ''Error processing message'' (snd (process_message_try w m b)))"
  by (cases "process_message_try w m b") (simp add: process_message_def)

lemma send_short_logs:
  "length text \<le> max_length \<Longrightarrow> prefix (logs b) (logs (snd (send_telegram_message w chat text b)))"
  by (auto simp: send_telegram_message_def requests_post_eq split: post_reply.splits bool.splits)

lemma handle_question_catches:
  assumes "post_reply_of w (calls b @ [SendChatAction chat]) = PostRaises"
  shows "calls (handle_question w chat q b)
           = calls b @ [SendChatAction chat, SendMessage chat error_message]
       \<and> (ERROR, ''Error handling question'') \<in> set (logs (handle_question w chat q b))"
proof -
  let ?b1 = "logger ERROR ''Error handling question'' (b\<lparr>calls := calls b @ [SendChatAction chat]\<rparr>)"
  have h: "handle_question w chat q b = snd (send_telegram_message w chat error_message ?b1)"
    using assms
    by (simp add: handle_question_raises handle_question_except_def Let_def delete_thinking_def)
  have "length error_message \<le> max_length"
    by (simp add: error_message_eq length_SYSTEM_PROMPTS_error max_length_eq)
  then have "prefix (logs ?b1) (logs (handle_question w chat q b))"
    unfolding h by (rule send_short_logs)
  then have "set (logs ?b1) \<subseteq> set (logs (handle_question w chat q b))"
    by (rule set_mono_prefix)
  moreover have "(ERROR, ''Error handling question'') \<in> set (logs ?b1)" by simp
  ultimately have l: "(ERROR, ''Error handling question'') \<in> set (logs (handle_question w chat q b))"
    by blast
  have "calls (handle_question w chat q b)
           = calls b @ [SendChatAction chat, SendMessage chat error_message]"
    using assms by (simp add: handle_question_raises handle_question_except_calls)
  then show ?thesis using l by simp
qed

lemma run_iteration_catches:
  assumes "get_telegram_updates w b = (batch, polled)" "for_updates w batch polled = (Some e, stopped)"
  shows "run_iteration w b = logger ERROR ''Error in main loop'' stopped"
  using assms by (simp add: run_iteration_def)


subsection \<open>A batch on which the typing signal raises\<close>

text \<open>
  Two updates as the transport delivers them, a question and a \<open>/start\<close>, and a world
  in which every \<open>sendChatAction\<close> request raises and every other request is accepted.
\<close>

definition question_update :: update where
  "question_update =
     \<lparr>update_id = Some 7,
      message = Some \<lparr>chat_id = Some 1, from_id = Some 2, msg_text = Some (ascii ''hi'')\<rparr>\<rparr>"

definition start_update :: update where
  "start_update =
     \<lparr>update_id = Some 8,
      message = Some \<lparr>chat_id = Some 1, from_id = Some 2, msg_text = Some (ascii ''/start'')\<rparr>\<rparr>"

definition typing_raises_world :: world where
  "typing_raises_world =
     accepting_world\<lparr>post_reply_of :=
         (\<lambda>tr. case last tr of SendChatAction c \<Rightarrow> PostRaises | _ \<Rightarrow> PostJson True (Some 1)),
       updates_reply_of := (\<lambda>tr. GetJson True [question_update, start_update])\<rparr>"

text \<open>The state after the question, and after the \<open>/start\<close> that follows it.\<close>

definition after_question :: "bot \<Rightarrow> bot" where
  "after_question b =
     b\<lparr>calls := calls b @ [SendChatAction 1, SendMessage 1 error_message],
       logs := logs b @ [(INFO, ''Processing message''), (ERROR, ''Error handling question'')]\<rparr>"

definition after_start :: "bot \<Rightarrow> bot" where
  "after_start b =
     b\<lparr>calls := calls b @ [SendMessage 1 SYSTEM_PROMPTS_welcome],
       logs := logs b @ [(INFO, ''Processing message'')]\<rparr>"

lemma process_question_update:
  "process_message w \<lparr>chat_id = Some 1, from_id = Some 2, msg_text = Some (ascii ''hi'')\<rparr> b
     = (Some (ascii ''hi''), logger INFO ''Processing message'' b)"
  by (simp add: process_message_def process_message_try_def Let_def strip_def is_space_def
      startswith_def ascii_def)

lemma handle_question_typing_raises:
  "handle_question typing_raises_world 1 q b
     = (logger ERROR ''Error handling question'' b)
         \<lparr>calls := calls b @ [SendChatAction 1, SendMessage 1 error_message]\<rparr>"
proof -
  have r: "post_reply_of typing_raises_world (calls b @ [SendChatAction 1]) = PostRaises"
    by (simp add: typing_raises_world_def)
  have l: "length error_message \<le> max_length"
    by (simp add: error_message_eq length_SYSTEM_PROMPTS_error max_length_eq)
  have "handle_question typing_raises_world 1 q b
      = handle_question_except typing_raises_world 1 None (b\<lparr>calls := calls b @ [SendChatAction 1]\<rparr>)"
    by (rule handle_question_raises[OF r])
  then show ?thesis
    using l
    by (simp add: handle_question_except_def Let_def delete_thinking_def
        send_telegram_message_def requests_post_eq typing_raises_world_def logger_def)
qed

lemma handle_question_update:
  "handle_update typing_raises_world question_update b = (None, after_question b)"
proof -
  have t: "ascii ''hi'' \<noteq> []
      \<and> ascii ''hi'' \<notin> set [ascii ''start_command_processed'', ascii ''help_command_processed'']"
    by (simp add: ascii_def)
  have "handle_update typing_raises_world question_update b
      = (None, handle_question typing_raises_world 1 (ascii ''hi'')
                 (logger INFO ''Processing message'' b))"
    unfolding handle_update_def question_update_def
    using t by (simp add: process_question_update del: set_simps)
  then show ?thesis
    by (simp add: handle_question_typing_raises after_question_def logger_def)
qed

lemma handle_start_update_typing_raises:
  "handle_update typing_raises_world start_update b = (None, after_start b)"
  by (simp add: handle_update_def start_update_def process_message_def process_message_try_def
      Let_def strip_def is_space_def startswith_def ascii_def send_telegram_message_def
      length_SYSTEM_PROMPTS_welcome max_length_eq requests_post_eq typing_raises_world_def
      after_start_def logger_def)

lemma get_question_batch:
  "get_telegram_updates typing_raises_world bot0
     = ([question_update, start_update], bot0\<lparr>update_offset := 9, calls := [GetUpdates 0]\<rparr>)"
  by (simp add: get_telegram_updates_def requests_get_eq typing_raises_world_def
      start_update_def bot0_def)

lemma for_question_batch:
  "for_updates typing_raises_world [question_update, start_update] b
     = (None, after_start (after_question b))"
  by (simp add: handle_question_update handle_start_update_typing_raises)

lemma run_question_batch:
  "run_iteration typing_raises_world bot0
     = after_start (after_question (bot0\<lparr>update_offset := 9, calls := [GetUpdates 0]\<rparr>))"
  by (simp add: run_iteration_def get_question_batch for_question_batch del: for_updates.simps)
section \<open>The cursor after a batch\<close>

text \<open>The update ids of a batch, in order.\<close>

definition update_ids :: "update list \<Rightarrow> int list" where
  "update_ids batch = List.map_filter update_id batch"

lemma update_ids_snoc:
  "update_id u = Some i \<Longrightarrow> update_ids (us @ [u]) = update_ids us @ [i]"
  by (simp add: update_ids_def map_filter_def)

lemma get_telegram_updates_cursor:
  assumes "get_telegram_updates w b = (batch, b1)"
  shows "(batch = [] \<longrightarrow> update_offset b1 = update_offset b)
       \<and> (batch \<noteq> [] \<longrightarrow> update_id (last batch) = Some (update_offset b1 - 1))"
  using assms
  by (auto simp: get_telegram_updates_def requests_get_eq
      split: updates_reply.splits if_splits option.splits)

lemma run_iteration_update_offset:
  "update_offset (run_iteration w b) = update_offset (snd (get_telegram_updates w b))"
proof -
  obtain batch b1 where g: "get_telegram_updates w b = (batch, b1)"
    by (cases "get_telegram_updates w b")
  obtain e b2 where f: "for_updates w batch b1 = (e, b2)" by (cases "for_updates w batch b1")
  have "update_offset b2 = update_offset b1"
    using for_updates_update_offset[of w batch b1] f by simp
  then show ?thesis using g f by (cases e) (simp_all add: run_iteration_def)
qed

lemma sorted_last_Max:
  fixes xs :: "int list"
  assumes "sorted (xs @ [i])"
  shows "Max (set (xs @ [i])) = i"
proof -
  have "\<forall>x\<in>set xs. x \<le> i" using assms by (simp add: sorted_append)
  then show ?thesis by (intro Max_eqI) auto
qed

text \<open>
  Claim C1. The transport delivers the updates of a batch in the order of their ids,
  which increase. \<open>get_telegram_updates\<close> sets the cursor at poll time, from the last
  update of the batch, and nothing that handles the batch touches it. So for every
  non-empty batch in ascending order of ids, after the turn of the loop that polled it
  the cursor is the maximum \<open>update_id\<close> of the batch plus 1, in every world: whatever
  the handling of an update raised, caught inside the handling or by the loop. For an
  empty batch the cursor is unchanged.
\<close>

theorem cursor_after_batch:
  assumes "get_telegram_updates w b = (batch, b1)"
  shows "(batch = [] \<longrightarrow> update_offset (run_iteration w b) = update_offset b)
       \<and> (batch \<noteq> [] \<longrightarrow>
            update_id (last batch) = Some (update_offset (run_iteration w b) - 1)
          \<and> (sorted (update_ids batch) \<longrightarrow>
                update_offset (run_iteration w b) = Max (set (update_ids batch)) + 1))"
proof -
  have c: "update_offset (run_iteration w b) = update_offset b1"
    using assms by (simp add: run_iteration_update_offset)
  have g: "(batch = [] \<longrightarrow> update_offset b1 = update_offset b)
       \<and> (batch \<noteq> [] \<longrightarrow> update_id (last batch) = Some (update_offset b1 - 1))"
    using assms by (rule get_telegram_updates_cursor)
  have "update_offset b1 = Max (set (update_ids batch)) + 1"
    if ne: "batch \<noteq> []" and s: "sorted (update_ids batch)"
  proof -
    have l: "update_id (last batch) = Some (update_offset b1 - 1)" using g ne by simp
    have "batch = butlast batch @ [last batch]" using ne by simp
    then have "update_ids batch = update_ids (butlast batch) @ [update_offset b1 - 1]"
      using update_ids_snoc[OF l, of "butlast batch"] by simp
    then have "Max (set (update_ids batch)) = update_offset b1 - 1"
      using s sorted_last_Max[of "update_ids (butlast batch)" "update_offset b1 - 1"] by simp
    then show ?thesis by simp
  qed
  then show ?thesis using c g by simp
qed

theorem cursor_after_batch_witness:
  "get_telegram_updates typing_raises_world bot0
     = ([question_update, start_update], bot0\<lparr>update_offset := 9, calls := [GetUpdates 0]\<rparr>)
   \<and> [question_update, start_update] \<noteq> []
   \<and> update_ids [question_update, start_update] = [7, 8]
   \<and> sorted (update_ids [question_update, start_update])
   \<and> post_reply_of typing_raises_world [GetUpdates 0, SendChatAction 1] = PostRaises
   \<and> (ERROR, ''Error handling question'') \<in> set (logs (run_iteration typing_raises_world bot0))
   \<and> update_offset (run_iteration typing_raises_world bot0) = 9
   \<and> Max (set (update_ids [question_update, start_update])) + 1 = 9
   \<and> fst (get_telegram_updates accepting_world bot0) = []
   \<and> update_offset (run_iteration accepting_world bot0) = 0"
proof -
  have e: "get_telegram_updates accepting_world bot0
     = ([], logger ERROR ''Error getting updates'' (bot0\<lparr>calls := [GetUpdates 0]\<rparr>))"
    by (simp add: get_telegram_updates_def requests_get_eq accepting_world_def bot0_def)
  have ids: "update_ids [question_update, start_update] = [7, 8]"
    by (simp add: update_ids_def map_filter_def question_update_def start_update_def)
  have r: "post_reply_of typing_raises_world [GetUpdates 0, SendChatAction 1] = PostRaises"
    by (simp add: typing_raises_world_def)
  have l: "(ERROR, ''Error handling question'') \<in> set (logs (run_iteration typing_raises_world bot0))"
    by (simp add: run_question_batch after_start_def after_question_def)
  have u: "update_offset (run_iteration accepting_world bot0) = 0"
    using cursor_after_batch[OF e] by (simp add: bot0_def)
  have s: "sorted (update_ids [question_update, start_update])" by (simp add: ids)
  have n: "[question_update, start_update] \<noteq> []" by simp
  have "update_offset (run_iteration typing_raises_world bot0)
      = Max (set (update_ids [question_update, start_update])) + 1"
    using cursor_after_batch[OF get_question_batch] n s by blast
  then have c: "update_offset (run_iteration typing_raises_world bot0) = 9"
    and m: "Max (set (update_ids [question_update, start_update])) + 1 = 9"
    by (simp_all add: ids)
  show ?thesis using get_question_batch n ids s r l c m e u by simp
qed
section \<open>A completion client that fails\<close>

text \<open>The deletion \<open>handle_question\<close> issues for the id the animation returned.\<close>

definition delete_call :: "int \<Rightarrow> int option \<Rightarrow> call list" where
  "delete_call chat thinking_message_id =
     (case thinking_message_id of
        None \<Rightarrow> []
      | Some mid \<Rightarrow> if mid = 0 then [] else [DeleteMessage chat mid])"

text \<open>
  Worlds in which the completion client fails on one call only, the seventh call of the
  bot: it raises there, or returns a result without alternatives there, and answers
  every other call.
\<close>

definition completion_raises_once :: world where
  "completion_raises_once =
     accepting_world\<lparr>completion_reply_of :=
       (\<lambda>tr. if length tr = 7 then CompletionRaises else CompletionResult [ascii ''ok''])\<rparr>"

definition completion_empty_once :: world where
  "completion_empty_once =
     accepting_world\<lparr>completion_reply_of :=
       (\<lambda>tr. if length tr = 7 then CompletionResult [] else CompletionResult [ascii ''ok''])\<rparr>"

definition thinking_calls :: "call list" where
  "thinking_calls =
     [SendChatAction 1, SendMessage 1 (thinking_messages ! 0),
      EditMessageText 1 1 (thinking_messages ! 1), EditMessageText 1 1 (thinking_messages ! 2),
      EditMessageText 1 1 (thinking_messages ! 3)]"

lemma get_yandex_response_at:
  assumes "curriculum_text w (calls b @ [GetCurriculumText]) = Some c"
  shows "fst (get_yandex_response w q b) =
     (case completion_reply_of w
             (calls b @ [GetCurriculumText, Completions (create_messages_for_yandex c q)]) of
        CompletionRaises \<Rightarrow> SYSTEM_PROMPTS_error
      | CompletionResult [] \<Rightarrow> SYSTEM_PROMPTS_no_response
      | CompletionResult (t # ts) \<Rightarrow> fix_telegram_formatting t)"
  using assms
  by (simp add: get_yandex_response_def get_yandex_response_try_def Let_def
      split: completion_reply.splits list.splits)

lemma get_yandex_response_calls_at:
  assumes "curriculum_text w (calls b @ [GetCurriculumText]) = Some c"
  shows "calls (snd (get_yandex_response w q b))
     = calls b @ [GetCurriculumText, Completions (create_messages_for_yandex c q)]"
  using assms by (simp add: get_yandex_response_calls)

lemma handle_question_sends_fallback:
  assumes "post_reply_of w (calls b @ [SendChatAction chat]) \<noteq> PostRaises"
    and "before_completion w chat b = (tid, bt)"
    and "curriculum_text w (calls bt @ [GetCurriculumText]) = Some c"
    and "fst (get_yandex_response w q bt) = response"
    and "length response \<le> max_length"
  shows "calls (handle_question w chat q b)
     = calls bt @ [GetCurriculumText, Completions (create_messages_for_yandex c q)]
       @ delete_call chat tid @ [SendMessage chat response]"
proof -
  let ?r = "get_yandex_response w q bt"
  let ?b4 = "delete_thinking w chat tid (Some WARNING) (snd ?r)"
  have d: "calls ?b4 = calls (snd ?r) @ delete_call chat tid"
    by (simp add: delete_thinking_calls delete_call_def split: option.splits)
  have "calls (handle_question w chat q b) = calls (snd (send_telegram_message w chat (fst ?r) ?b4))"
    using assms(1,2) by (simp add: handle_question_calls)
  also have "\<dots> = calls ?b4 @ [SendMessage chat response]"
    using assms(4,5) by (simp add: send_short)
  finally show ?thesis
    using d get_yandex_response_calls_at[OF assms(3), of q] by simp
qed

lemma before_completion_accepting:
  assumes "post_reply_of w = (\<lambda>tr. PostJson True (Some 1))"
  shows "before_completion w 1 bot0 = (Some 1, bot0\<lparr>calls := thinking_calls\<rparr>)"
proof -
  have u: "show_thinking_animation w chat b
    = thinking_loop w chat [thinking_messages ! 0, thinking_messages ! 1, thinking_messages ! 2,
        thinking_messages ! 3] None b" for chat b
    using thinking_messages_nth by (simp add: show_thinking_animation_def)
  show ?thesis
    using assms
    by (simp add: before_completion_def u requests_post_eq bot0_def thinking_calls_def)
qed

lemma fix_telegram_formatting_Nil: "fix_telegram_formatting [] = []"
  by code_simp

text \<open>
  Claim C5. \<open>get_yandex_response\<close> asks the completion client once. When that call
  raises, it returns \<open>SYSTEM_PROMPTS['error']\<close>; when that call returns an empty result
  (\<open>result\<close> is falsy: there is no alternative in it), it returns
  \<open>SYSTEM_PROMPTS['no_response']\<close>. The hypotheses are about the reply to the call that
  is made, after the calls before it; the client may answer any other call as it likes.
  A result that has an alternative is not empty for the code, whatever the text of the
  alternative: the formatted text of the first alternative is returned, also when that
  text is the empty string, and no fallback replaces it. In \<open>handle_question\<close>, when
  the typing signal has not raised, the calls after the completion call are the deletion
  of the thinking message, if there is one, and one send of the fallback string to the
  chat; nothing else is sent. The whole body of \<open>get_yandex_response\<close> is inside its
  \<open>try\<close>, so the function has no exceptional result: it returns a string in every
  world.
\<close>

theorem completion_failure_gives_fallback:
  "(curriculum_text w (calls b @ [GetCurriculumText]) = Some c \<longrightarrow>
      calls (snd (get_yandex_response w q b))
        = calls b @ [GetCurriculumText, Completions (create_messages_for_yandex c q)]
    \<and> (completion_reply_of w
          (calls b @ [GetCurriculumText, Completions (create_messages_for_yandex c q)])
          = CompletionRaises \<longrightarrow>
        fst (get_yandex_response w q b) = SYSTEM_PROMPTS_error)
    \<and> (completion_reply_of w
          (calls b @ [GetCurriculumText, Completions (create_messages_for_yandex c q)])
          = CompletionResult [] \<longrightarrow>
        fst (get_yandex_response w q b) = SYSTEM_PROMPTS_no_response)
    \<and> (completion_reply_of w
          (calls b @ [GetCurriculumText, Completions (create_messages_for_yandex c q)])
          = CompletionResult (t # ts) \<longrightarrow>
        fst (get_yandex_response w q b) = fix_telegram_formatting t))
   \<and> (post_reply_of w (calls b @ [SendChatAction chat]) \<noteq> PostRaises
      \<and> before_completion w chat b = (tid, bt)
      \<and> curriculum_text w (calls bt @ [GetCurriculumText]) = Some c \<longrightarrow>
        (completion_reply_of w
           (calls bt @ [GetCurriculumText, Completions (create_messages_for_yandex c q)])
           = CompletionRaises \<longrightarrow>
         calls (handle_question w chat q b)
           = calls bt @ [GetCurriculumText, Completions (create_messages_for_yandex c q)]
             @ delete_call chat tid @ [SendMessage chat SYSTEM_PROMPTS_error])
      \<and> (completion_reply_of w
           (calls bt @ [GetCurriculumText, Completions (create_messages_for_yandex c q)])
           = CompletionResult [] \<longrightarrow>
         calls (handle_question w chat q b)
           = calls bt @ [GetCurriculumText, Completions (create_messages_for_yandex c q)]
             @ delete_call chat tid @ [SendMessage chat SYSTEM_PROMPTS_no_response]))"
proof (intro conjI impI)
  assume c: "curriculum_text w (calls b @ [GetCurriculumText]) = Some c"
  show "calls (snd (get_yandex_response w q b))
        = calls b @ [GetCurriculumText, Completions (create_messages_for_yandex c q)]"
    using c by (rule get_yandex_response_calls_at)
  {
    assume "completion_reply_of w
          (calls b @ [GetCurriculumText, Completions (create_messages_for_yandex c q)])
          = CompletionRaises"
    then show "fst (get_yandex_response w q b) = SYSTEM_PROMPTS_error"
      by (simp add: get_yandex_response_at[OF c])
  }
  {
    assume "completion_reply_of w
          (calls b @ [GetCurriculumText, Completions (create_messages_for_yandex c q)])
          = CompletionResult []"
    then show "fst (get_yandex_response w q b) = SYSTEM_PROMPTS_no_response"
      by (simp add: get_yandex_response_at[OF c])
  }
  {
    assume "completion_reply_of w
          (calls b @ [GetCurriculumText, Completions (create_messages_for_yandex c q)])
          = CompletionResult (t # ts)"
    then show "fst (get_yandex_response w q b) = fix_telegram_formatting t"
      by (simp add: get_yandex_response_at[OF c])
  }
next
  assume h: "post_reply_of w (calls b @ [SendChatAction chat]) \<noteq> PostRaises
      \<and> before_completion w chat b = (tid, bt)
      \<and> curriculum_text w (calls bt @ [GetCurriculumText]) = Some c"
    and r: "completion_reply_of w
           (calls bt @ [GetCurriculumText, Completions (create_messages_for_yandex c q)])
           = CompletionRaises"
  have t: "post_reply_of w (calls b @ [SendChatAction chat]) \<noteq> PostRaises"
    and bc: "before_completion w chat b = (tid, bt)"
    and c: "curriculum_text w (calls bt @ [GetCurriculumText]) = Some c"
    using h by simp_all
  have "fst (get_yandex_response w q bt) = SYSTEM_PROMPTS_error"
    using r by (simp add: get_yandex_response_at[OF c])
  then show "calls (handle_question w chat q b)
           = calls bt @ [GetCurriculumText, Completions (create_messages_for_yandex c q)]
             @ delete_call chat tid @ [SendMessage chat SYSTEM_PROMPTS_error]"
    by (rule handle_question_sends_fallback[OF t bc c])
      (simp add: length_SYSTEM_PROMPTS_error max_length_eq)
next
  assume h: "post_reply_of w (calls b @ [SendChatAction chat]) \<noteq> PostRaises
      \<and> before_completion w chat b = (tid, bt)
      \<and> curriculum_text w (calls bt @ [GetCurriculumText]) = Some c"
    and r: "completion_reply_of w
           (calls bt @ [GetCurriculumText, Completions (create_messages_for_yandex c q)])
           = CompletionResult []"
  have t: "post_reply_of w (calls b @ [SendChatAction chat]) \<noteq> PostRaises"
    and bc: "before_completion w chat b = (tid, bt)"
    and c: "curriculum_text w (calls bt @ [GetCurriculumText]) = Some c"
    using h by simp_all
  have "fst (get_yandex_response w q bt) = SYSTEM_PROMPTS_no_response"
    using r by (simp add: get_yandex_response_at[OF c])
  then show "calls (handle_question w chat q b)
           = calls bt @ [GetCurriculumText, Completions (create_messages_for_yandex c q)]
             @ delete_call chat tid @ [SendMessage chat SYSTEM_PROMPTS_no_response]"
    by (rule handle_question_sends_fallback[OF t bc c])
      (simp add: length_SYSTEM_PROMPTS_no_response max_length_eq)
qed

theorem completion_failure_gives_fallback_witness:
  "post_reply_of completion_raises_once (calls bot0 @ [SendChatAction 1]) \<noteq> PostRaises
   \<and> before_completion completion_raises_once 1 bot0 = (Some 1, bot0\<lparr>calls := thinking_calls\<rparr>)
   \<and> curriculum_text completion_raises_once (thinking_calls @ [GetCurriculumText]) = Some []
   \<and> completion_reply_of completion_raises_once
        (thinking_calls @ [GetCurriculumText, Completions [System [], User (ascii ''q'')]])
       = CompletionRaises
   \<and> completion_reply_of completion_raises_once [] = CompletionResult [ascii ''ok'']
   \<and> get_yandex_response completion_raises_once (ascii ''q'') (bot0\<lparr>calls := thinking_calls\<rparr>)
       = (SYSTEM_PROMPTS_error,
          (bot0\<lparr>calls := thinking_calls @ [GetCurriculumText, Completions [System [], User (ascii ''q'')]]\<rparr>)
            \<lparr>logs := [(INFO, ''Sending request to YandexGPT for question''),
                      (ERROR, ''Error calling YandexGPT'')]\<rparr>)
   \<and> calls (handle_question completion_raises_once 1 (ascii ''q'') bot0)
       = thinking_calls @ [GetCurriculumText, Completions [System [], User (ascii ''q'')],
           DeleteMessage 1 1, SendMessage 1 SYSTEM_PROMPTS_error]
   \<and> post_reply_of completion_empty_once (calls bot0 @ [SendChatAction 1]) \<noteq> PostRaises
   \<and> before_completion completion_empty_once 1 bot0 = (Some 1, bot0\<lparr>calls := thinking_calls\<rparr>)
   \<and> curriculum_text completion_empty_once (thinking_calls @ [GetCurriculumText]) = Some []
   \<and> completion_reply_of completion_empty_once
        (thinking_calls @ [GetCurriculumText, Completions [System [], User (ascii ''q'')]])
       = CompletionResult []
   \<and> fst (get_yandex_response completion_empty_once (ascii ''q'') (bot0\<lparr>calls := thinking_calls\<rparr>))
       = SYSTEM_PROMPTS_no_response
   \<and> calls (handle_question completion_empty_once 1 (ascii ''q'') bot0)
       = thinking_calls @ [GetCurriculumText, Completions [System [], User (ascii ''q'')],
           DeleteMessage 1 1, SendMessage 1 SYSTEM_PROMPTS_no_response]
   \<and> completion_reply_of accepting_world [] = CompletionResult []
   \<and> fst (get_yandex_response (accepting_world\<lparr>completion_reply_of := (\<lambda>tr. CompletionResult [[]])\<rparr>)
             (ascii ''q'') bot0) = []"
proof -
  let ?q = "ascii ''q''"
  let ?bt = "bot0\<lparr>calls := thinking_calls\<rparr>"
  let ?ms = "[System [], User ?q]"
  let ?e = "accepting_world\<lparr>completion_reply_of := (\<lambda>tr. CompletionResult [[]])\<rparr>"
  have m: "create_messages_for_yandex [] ?q = ?ms" by (simp add: create_messages_for_yandex_def)
  note R = completion_failure_gives_fallback[where w = completion_raises_once and b = bot0
      and c = "[]" and q = ?q and chat = 1 and tid = "Some 1" and bt = ?bt and t = "[]" and ts = "[]"]
  note R' = completion_failure_gives_fallback[where w = completion_raises_once and b = ?bt
      and c = "[]" and q = ?q and chat = 1 and tid = "Some 1" and bt = ?bt and t = "[]" and ts = "[]"]
  note E = completion_failure_gives_fallback[where w = completion_empty_once and b = bot0
      and c = "[]" and q = ?q and chat = 1 and tid = "Some 1" and bt = ?bt and t = "[]" and ts = "[]"]
  note E' = completion_failure_gives_fallback[where w = completion_empty_once and b = ?bt
      and c = "[]" and q = ?q and chat = 1 and tid = "Some 1" and bt = ?bt and t = "[]" and ts = "[]"]
  note X = completion_failure_gives_fallback[where w = ?e and b = bot0
      and c = "[]" and q = ?q and chat = 1 and tid = "Some 1" and bt = ?bt and t = "[]" and ts = "[]"]
  have r1: "post_reply_of completion_raises_once (calls bot0 @ [SendChatAction 1]) \<noteq> PostRaises"
    and e1: "post_reply_of completion_empty_once (calls bot0 @ [SendChatAction 1]) \<noteq> PostRaises"
    by (simp_all add: completion_raises_once_def completion_empty_once_def accepting_world_def)
  have r2: "before_completion completion_raises_once 1 bot0 = (Some 1, ?bt)"
    by (rule before_completion_accepting) (simp add: completion_raises_once_def accepting_world_def)
  have e2: "before_completion completion_empty_once 1 bot0 = (Some 1, ?bt)"
    by (rule before_completion_accepting) (simp add: completion_empty_once_def accepting_world_def)
  have r3: "curriculum_text completion_raises_once (thinking_calls @ [GetCurriculumText]) = Some []"
    and e3: "curriculum_text completion_empty_once (thinking_calls @ [GetCurriculumText]) = Some []"
    by (simp_all add: completion_raises_once_def completion_empty_once_def accepting_world_def)
  have r4: "completion_reply_of completion_raises_once
        (thinking_calls @ [GetCurriculumText, Completions ?ms]) = CompletionRaises"
    and e4: "completion_reply_of completion_empty_once
        (thinking_calls @ [GetCurriculumText, Completions ?ms]) = CompletionResult []"
    and r5: "completion_reply_of completion_raises_once [] = CompletionResult [ascii ''ok'']"
    by (simp_all add: completion_raises_once_def completion_empty_once_def thinking_calls_def)
  have cb: "calls ?bt = thinking_calls" by simp
  have r6: "fst (get_yandex_response completion_raises_once ?q ?bt) = SYSTEM_PROMPTS_error"
    using R' r3 r4 unfolding m cb by blast
  have r6': "snd (get_yandex_response completion_raises_once ?q ?bt)
       = (bot0\<lparr>calls := thinking_calls @ [GetCurriculumText, Completions ?ms]\<rparr>)
            \<lparr>logs := [(INFO, ''Sending request to YandexGPT for question''),
                      (ERROR, ''Error calling YandexGPT'')]\<rparr>"
    using r3 r4
    by (simp add: get_yandex_response_def get_yandex_response_try_def Let_def m logger_def bot0_def)
  have r7: "calls (handle_question completion_raises_once 1 ?q bot0)
       = thinking_calls @ [GetCurriculumText, Completions ?ms]
         @ delete_call 1 (Some 1) @ [SendMessage 1 SYSTEM_PROMPTS_error]"
    using R r1 r2 r3 r4 unfolding m cb by blast
  have e6: "fst (get_yandex_response completion_empty_once ?q ?bt) = SYSTEM_PROMPTS_no_response"
    using E' e3 e4 unfolding m cb by blast
  have e7: "calls (handle_question completion_empty_once 1 ?q bot0)
       = thinking_calls @ [GetCurriculumText, Completions ?ms]
         @ delete_call 1 (Some 1) @ [SendMessage 1 SYSTEM_PROMPTS_no_response]"
    using E e1 e2 e3 e4 unfolding m cb by blast
  have x1: "curriculum_text ?e (calls bot0 @ [GetCurriculumText]) = Some []"
    and x2: "completion_reply_of ?e (calls bot0 @ [GetCurriculumText, Completions ?ms])
        = CompletionResult ([] # [])"
    by (simp_all add: accepting_world_def)
  have "fst (get_yandex_response ?e ?q bot0) = fix_telegram_formatting []"
    using X x1 x2 unfolding m by blast
  then have x: "fst (get_yandex_response ?e ?q bot0) = []"
    by (simp add: fix_telegram_formatting_Nil)
  have a: "completion_reply_of accepting_world [] = CompletionResult []"
    by (simp add: accepting_world_def)
  have d: "delete_call 1 (Some 1) = [DeleteMessage 1 1]" by (simp add: delete_call_def)
  have r8: "get_yandex_response completion_raises_once ?q ?bt
       = (SYSTEM_PROMPTS_error,
          (bot0\<lparr>calls := thinking_calls @ [GetCurriculumText, Completions ?ms]\<rparr>)
            \<lparr>logs := [(INFO, ''Sending request to YandexGPT for question''),
                      (ERROR, ''Error calling YandexGPT'')]\<rparr>)"
    using r6 r6' by (simp add: prod_eq_iff)
  show ?thesis
    using r1 r2 r3 r4 r5 r8 r7 e1 e2 e3 e4 e6 e7 a x unfolding d by simp
qed
section \<open>The thinking indicator\<close>




lemma show_thinking_animation_unfold:
  "show_thinking_animation w chat b
    = thinking_loop w chat [thinking_messages ! 0, thinking_messages ! 1, thinking_messages ! 2,
        thinking_messages ! 3] None b"
  using thinking_messages_nth by (simp add: show_thinking_animation_def)



section \<open>Deleting the thinking indicator\<close>

definition delete_raises_world :: world where
  "delete_raises_world =
     accepting_world\<lparr>post_reply_of :=
       (\<lambda>tr. case last tr of DeleteMessage c i \<Rightarrow> PostRaises | _ \<Rightarrow> PostJson True (Some 7))\<rparr>"

lemma before_completion_delete_raises:
  "before_completion delete_raises_world 1 bot0
     = (Some 7, bot0\<lparr>calls :=
         [SendChatAction 1, SendMessage 1 (thinking_messages ! 0),
          EditMessageText 1 7 (thinking_messages ! 1), EditMessageText 1 7 (thinking_messages ! 2),
          EditMessageText 1 7 (thinking_messages ! 3)]\<rparr>)"
  by (simp add: before_completion_def show_thinking_animation_unfold requests_post_eq
      delete_raises_world_def bot0_def)

text \<open>
  Claim C9. When \<open>show_thinking_animation\<close> has returned a message id that
  \<open>if thinking_message_id:\<close> accepts (an id other than 0; Telegram's message ids are
  positive), \<open>handle_question\<close> issues the deletion of that message right after the
  completion call and right before the sends of the final text, of which at least the
  first is issued. The \<open>except\<close> block does the same before the apology. Both hold in
  every world, so whatever the reply to the deletion is, an exception included.
\<close>

theorem thinking_message_deleted_before_final_send:
  "(post_reply_of w (calls b @ [SendChatAction chat]) \<noteq> PostRaises
      \<and> fst (before_completion w chat b) = Some mid \<and> mid \<noteq> 0 \<longrightarrow>
    (\<exists>k. 0 < k
      \<and> k \<le> length (texts_to_send (fst (get_yandex_response w q (snd (before_completion w chat b)))))
      \<and> calls (handle_question w chat q b)
          = calls (snd (get_yandex_response w q (snd (before_completion w chat b))))
            @ DeleteMessage chat mid
            # map (SendMessage chat)
                (take k (texts_to_send (fst (get_yandex_response w q (snd (before_completion w chat b))))))))
   \<and> (mid \<noteq> 0 \<longrightarrow>
        calls (handle_question_except w chat (Some mid) b)
          = calls b @ [DeleteMessage chat mid, SendMessage chat error_message])"
  using handle_question_deletes_then_sends[of w b chat mid q]
  by (simp add: handle_question_except_calls)

theorem thinking_message_deleted_before_final_send_witness:
  "post_reply_of delete_raises_world (calls bot0 @ [SendChatAction 1]) \<noteq> PostRaises
   \<and> fst (before_completion delete_raises_world 1 bot0) = Some 7
   \<and> (7::int) \<noteq> 0
   \<and> post_reply_of delete_raises_world
        [SendChatAction 1, SendMessage 1 (thinking_messages ! 0),
         EditMessageText 1 7 (thinking_messages ! 1), EditMessageText 1 7 (thinking_messages ! 2),
         EditMessageText 1 7 (thinking_messages ! 3), GetCurriculumText,
         Completions [System [], User (ascii ''q'')], DeleteMessage 1 7] = PostRaises
   \<and> calls (handle_question delete_raises_world 1 (ascii ''q'') bot0)
       = [SendChatAction 1, SendMessage 1 (thinking_messages ! 0),
          EditMessageText 1 7 (thinking_messages ! 1), EditMessageText 1 7 (thinking_messages ! 2),
          EditMessageText 1 7 (thinking_messages ! 3), GetCurriculumText,
          Completions [System [], User (ascii ''q'')], DeleteMessage 1 7,
          SendMessage 1 SYSTEM_PROMPTS_no_response]
   \<and> calls (handle_question_except delete_raises_world 1 (Some 7) bot0)
       = [DeleteMessage 1 7, SendMessage 1 error_message]"
proof -
  let ?w = delete_raises_world
  have 1: "post_reply_of ?w (calls bot0 @ [SendChatAction 1]) \<noteq> PostRaises"
    by (simp add: delete_raises_world_def)
  have 2: "fst (before_completion ?w 1 bot0) = Some 7"
    by (simp add: before_completion_delete_raises)
  have r: "fst (get_yandex_response ?w (ascii ''q'') (snd (before_completion ?w 1 bot0)))
      = SYSTEM_PROMPTS_no_response"
    by (rule get_yandex_response_empty) (simp_all add: delete_raises_world_def accepting_world_def)
  have c: "calls (snd (get_yandex_response ?w (ascii ''q'') (snd (before_completion ?w 1 bot0))))
      = [SendChatAction 1, SendMessage 1 (thinking_messages ! 0),
          EditMessageText 1 7 (thinking_messages ! 1), EditMessageText 1 7 (thinking_messages ! 2),
          EditMessageText 1 7 (thinking_messages ! 3), GetCurriculumText,
          Completions [System [], User (ascii ''q'')]]"
    unfolding get_yandex_response_calls before_completion_delete_raises
    by (simp add: create_messages_for_yandex_def delete_raises_world_def accepting_world_def
        bot0_def)
  have t: "texts_to_send SYSTEM_PROMPTS_no_response = [SYSTEM_PROMPTS_no_response]"
    by (simp add: texts_to_send_def length_SYSTEM_PROMPTS_no_response max_length_eq)
  have n0: "(7::int) \<noteq> 0" by simp
  note T = thinking_message_deleted_before_final_send[of ?w bot0 1 7 "ascii ''q''"]
  have "\<exists>k. 0 < k
      \<and> k \<le> length (texts_to_send (fst (get_yandex_response ?w (ascii ''q'') (snd (before_completion ?w 1 bot0)))))
      \<and> calls (handle_question ?w 1 (ascii ''q'') bot0)
          = calls (snd (get_yandex_response ?w (ascii ''q'') (snd (before_completion ?w 1 bot0))))
            @ DeleteMessage 1 7
            # map (SendMessage 1)
                (take k (texts_to_send (fst (get_yandex_response ?w (ascii ''q'') (snd (before_completion ?w 1 bot0))))))"
    using T 1 2 n0 by blast
  then obtain k where k: "0 < k" "k \<le> length [SYSTEM_PROMPTS_no_response]"
    "calls (handle_question ?w 1 (ascii ''q'') bot0)
       = [SendChatAction 1, SendMessage 1 (thinking_messages ! 0),
          EditMessageText 1 7 (thinking_messages ! 1), EditMessageText 1 7 (thinking_messages ! 2),
          EditMessageText 1 7 (thinking_messages ! 3), GetCurriculumText,
          Completions [System [], User (ascii ''q'')]]
         @ DeleteMessage 1 7 # map (SendMessage 1) (take k [SYSTEM_PROMPTS_no_response])"
    unfolding r c t by blast
  then have "k = 1" by simp
  then have h: "calls (handle_question ?w 1 (ascii ''q'') bot0)
       = [SendChatAction 1, SendMessage 1 (thinking_messages ! 0),
          EditMessageText 1 7 (thinking_messages ! 1), EditMessageText 1 7 (thinking_messages ! 2),
          EditMessageText 1 7 (thinking_messages ! 3), GetCurriculumText,
          Completions [System [], User (ascii ''q'')], DeleteMessage 1 7,
          SendMessage 1 SYSTEM_PROMPTS_no_response]"
    using k(3) by simp
  have e: "calls (handle_question_except ?w 1 (Some 7) bot0)
       = [DeleteMessage 1 7, SendMessage 1 error_message]"
  proof -
    have "calls (handle_question_except ?w 1 (Some 7) bot0)
       = calls bot0 @ [DeleteMessage 1 7, SendMessage 1 error_message]"
      using T n0 by blast
    then show ?thesis by (simp add: bot0_def)
  qed
  have p: "post_reply_of ?w
        [SendChatAction 1, SendMessage 1 (thinking_messages ! 0),
         EditMessageText 1 7 (thinking_messages ! 1), EditMessageText 1 7 (thinking_messages ! 2),
         EditMessageText 1 7 (thinking_messages ! 3), GetCurriculumText,
         Completions [System [], User (ascii ''q'')], DeleteMessage 1 7] = PostRaises"
    by (simp add: delete_raises_world_def)
  show ?thesis using 1 2 n0 h e p by blast
qed
section \<open>A message that spells a sentinel\<close>

definition sentinel_update :: update where
  "sentinel_update =
     \<lparr>update_id = Some 5,
      message = Some \<lparr>chat_id = Some 1, from_id = Some 2,
                      msg_text = Some (ascii ''  start_command_processed '' @ [10])\<rparr>\<rparr>"

lemma strip_sentinel:
  "strip (ascii ''  start_command_processed '' @ [10]) = ascii ''start_command_processed''"
  by (simp add: strip_def ascii_def is_space_def)

text \<open>
  Claim C10. For an update whose message text, trimmed, is one of the two sentinel
  strings: the text is not a command, so \<open>process_message\<close> returns it like a question
  (when the message has its chat and sender), and \<open>run\<close> then skips it. Handling the
  update makes no outbound call at all: no typing signal, no completion request, no
  message to the user; the only trace is the INFO log line of \<open>process_message\<close>.
\<close>

theorem sentinel_text_gets_no_reply:
  assumes "message u = Some m"
    and "strip (case msg_text m of Some t \<Rightarrow> t | None \<Rightarrow> []) \<in> set sentinels"
  shows "calls (snd (handle_update w u b)) = calls b
       \<and> (chat_id m \<noteq> None \<and> from_id m \<noteq> None \<longrightarrow>
            process_message w m b
              = (Some (strip (case msg_text m of Some t \<Rightarrow> t | None \<Rightarrow> [])),
                 logger INFO ''Processing message'' b)
          \<and> handle_update w u b = (None, logger INFO ''Processing message'' b))"
proof (cases "chat_id m")
  case None
  then show ?thesis using assms(1) by (simp add: handle_update_def)
next
  case (Some chat)
  show ?thesis
  proof (cases "from_id m")
    case None
    then show ?thesis using assms(1) Some
      by (simp add: handle_update_def process_message_no_from)
  next
    case (Some user)
    have p: "process_message w m b
       = (Some (strip (case msg_text m of Some t \<Rightarrow> t | None \<Rightarrow> [])),
          logger INFO ''Processing message'' b)"
      using \<open>chat_id m = Some chat\<close> Some assms(2) by (rule process_message_sentinel)
    have "strip (case msg_text m of Some t \<Rightarrow> t | None \<Rightarrow> [])
        \<in> set [ascii ''start_command_processed'', ascii ''help_command_processed'']"
      using assms(2) by (simp add: sentinels_def)
    then have "handle_update w u b = (None, logger INFO ''Processing message'' b)"
      using assms(1) \<open>chat_id m = Some chat\<close> p by (simp add: handle_update_def)
    then show ?thesis using p by simp
  qed
qed

theorem sentinel_text_gets_no_reply_witness:
  "message sentinel_update
     = Some \<lparr>chat_id = Some 1, from_id = Some 2,
             msg_text = Some (ascii ''  start_command_processed '' @ [10])\<rparr>
   \<and> strip (ascii ''  start_command_processed '' @ [10]) \<in> set sentinels
   \<and> calls (snd (handle_update accepting_world sentinel_update bot0)) = []
   \<and> handle_update accepting_world sentinel_update bot0
       = (None, logger INFO ''Processing message'' bot0)"
proof -
  let ?m = "\<lparr>chat_id = Some 1, from_id = Some 2,
             msg_text = Some (ascii ''  start_command_processed '' @ [10])\<rparr>"
  have 1: "message sentinel_update = Some ?m" by (simp add: sentinel_update_def)
  have 2: "strip (case msg_text ?m of Some t \<Rightarrow> t | None \<Rightarrow> []) \<in> set sentinels"
    by (simp add: strip_sentinel sentinels_def)
  have 3: "strip (ascii ''  start_command_processed '' @ [10]) \<in> set sentinels"
    by (simp add: strip_sentinel sentinels_def)
  show ?thesis
    using sentinel_text_gets_no_reply[OF 1 2, of accepting_world bot0] 1 3
    by (simp add: bot0_def)
qed
section \<open>Exceptions while a batch is handled\<close>

definition no_from_update :: update where
  "no_from_update =
     \<lparr>update_id = Some 6,
      message = Some \<lparr>chat_id = Some 1, from_id = None, msg_text = Some (ascii ''hi'')\<rparr>\<rparr>"

lemma run_iteration_handles_batch:
  assumes "\<forall>u\<in>set batch. \<not> lacks_chat u" "get_telegram_updates w b = (batch, polled)"
  shows "run_iteration w b = snd (for_updates w batch polled)"
proof -
  have "fst (for_updates w batch polled) = None"
    using for_updates_append[OF assms(1), of w polled "[]"] by simp
  then show ?thesis
    using assms(2) by (cases "for_updates w batch polled") (simp add: run_iteration_def)
qed

lemma for_updates_handles_each:
  assumes "\<forall>u\<in>set (us @ [u]). \<not> lacks_chat u"
  shows "for_updates w (us @ u # vs) b
     = for_updates w vs (snd (handle_update w u (snd (for_updates w us b))))"
proof -
  have 1: "\<forall>u\<in>set us. \<not> lacks_chat u" and 2: "\<not> lacks_chat u" using assms by simp_all
  obtain e b1 where h: "handle_update w u (snd (for_updates w us b)) = (e, b1)"
    by (cases "handle_update w u (snd (for_updates w us b))")
  have "e = None"
    using handle_update_raises_iff[of w u "snd (for_updates w us b)"] h 2 by simp
  then show ?thesis
    using for_updates_append[OF 1, of w b "u # vs"] h by simp
qed

text \<open>
  Claim C3. Every message the transport delivers carries its chat id. On a batch of
  such updates no exception leaves the handling of an update, in any world: the loop
  handles every update of the batch in order, each in the state the updates before it
  have left, and the turn of the loop ends without the handler of the outer loop being
  entered, so the next turn follows. The exceptions of an update's handling are caught
  there and logged: an exception inside \<open>process_message\<close> is caught by its \<open>except\<close>,
  which logs it, and the update yields no question (in the model, the lookup of the
  sender's id of a message that has none); an exception inside
  \<open>handle_question\<close> (the typing signal raises) is caught by its \<open>except\<close>, which logs
  it and sends the apology. The completion call, the thinking indicator, the deletion
  and the sends catch their own exceptions.
\<close>

theorem exceptions_while_handling_a_batch:
  "((\<forall>u\<in>set us. \<not> lacks_chat u) \<longrightarrow>
      fst (for_updates w us b) = None
    \<and> for_updates w (us @ vs) b = for_updates w vs (snd (for_updates w us b)))
   \<and> ((\<forall>u\<in>set (us @ [u]). \<not> lacks_chat u) \<longrightarrow>
        fst (handle_update w u (snd (for_updates w us b))) = None
      \<and> for_updates w (us @ u # vs) b
          = for_updates w vs (snd (handle_update w u (snd (for_updates w us b)))))
   \<and> ((\<forall>u\<in>set batch. \<not> lacks_chat u) \<and> get_telegram_updates w b = (batch, polled) \<longrightarrow>
        run_iteration w b = snd (for_updates w batch polled)
      \<and> run (Suc n) w b = run n w (snd (for_updates w batch polled)))
   \<and> (fst (process_message_try w m b) = Inl e \<longrightarrow>
        process_message w m b
          = (None, logger ERROR ''Error processing message'' (snd (process_message_try w m b))))
   \<and> (post_reply_of w (calls b @ [SendChatAction chat]) = PostRaises \<longrightarrow>
        calls (handle_question w chat q b)
          = calls b @ [SendChatAction chat, SendMessage chat error_message]
      \<and> (ERROR, ''Error handling question'') \<in> set (logs (handle_question w chat q b)))"
proof (intro conjI impI)
  assume a: "\<forall>u\<in>set us. \<not> lacks_chat u"
  show "fst (for_updates w us b) = None"
    using for_updates_append[OF a, of w b vs] by simp
  show "for_updates w (us @ vs) b = for_updates w vs (snd (for_updates w us b))"
    using for_updates_append[OF a, of w b vs] by simp
next
  assume a: "\<forall>u\<in>set (us @ [u]). \<not> lacks_chat u"
  then have "\<not> lacks_chat u" by simp
  then show "fst (handle_update w u (snd (for_updates w us b))) = None"
    by (simp add: handle_update_raises_iff)
  show "for_updates w (us @ u # vs) b
          = for_updates w vs (snd (handle_update w u (snd (for_updates w us b))))"
    using a by (rule for_updates_handles_each)
next
  assume a: "(\<forall>u\<in>set batch. \<not> lacks_chat u) \<and> get_telegram_updates w b = (batch, polled)"
  then show r: "run_iteration w b = snd (for_updates w batch polled)"
    using run_iteration_handles_batch[of batch w b polled] by simp
  show "run (Suc n) w b = run n w (snd (for_updates w batch polled))"
    using r by simp
next
  assume "fst (process_message_try w m b) = Inl e"
  then show "process_message w m b
      = (None, logger ERROR ''Error processing message'' (snd (process_message_try w m b)))"
    by (rule process_message_catches)
next
  assume a: "post_reply_of w (calls b @ [SendChatAction chat]) = PostRaises"
  show "calls (handle_question w chat q b)
      = calls b @ [SendChatAction chat, SendMessage chat error_message]"
    using handle_question_catches[OF a] by simp
  show "(ERROR, ''Error handling question'') \<in> set (logs (handle_question w chat q b))"
    using handle_question_catches[OF a] by simp
qed

theorem exceptions_while_handling_a_batch_witness:
  "\<not> lacks_chat question_update \<and> \<not> lacks_chat start_update
   \<and> post_reply_of typing_raises_world [GetUpdates 0, SendChatAction 1] = PostRaises
   \<and> get_telegram_updates typing_raises_world bot0
       = ([question_update, start_update], bot0\<lparr>update_offset := 9, calls := [GetUpdates 0]\<rparr>)
   \<and> fst (for_updates typing_raises_world [question_update, start_update] bot0) = None
   \<and> for_updates typing_raises_world ([question_update] @ [start_update]) bot0
       = for_updates typing_raises_world [start_update] (after_question bot0)
   \<and> for_updates typing_raises_world ([question_update] @ start_update # []) bot0
       = (None, after_start (after_question bot0))
   \<and> calls (handle_question typing_raises_world 1 (ascii ''hi'')
              (bot0\<lparr>update_offset := 9, calls := [GetUpdates 0]\<rparr>))
       = [GetUpdates 0, SendChatAction 1, SendMessage 1 error_message]
   \<and> calls (run_iteration typing_raises_world bot0)
       = [GetUpdates 0, SendChatAction 1, SendMessage 1 error_message,
          SendMessage 1 SYSTEM_PROMPTS_welcome]
   \<and> logs (run_iteration typing_raises_world bot0)
       = [(INFO, ''Processing message''), (ERROR, ''Error handling question''),
          (INFO, ''Processing message'')]
   \<and> run (Suc 0) typing_raises_world bot0
       = after_start (after_question (bot0\<lparr>update_offset := 9, calls := [GetUpdates 0]\<rparr>))
   \<and> \<not> lacks_chat no_from_update
   \<and> fst (process_message_try accepting_world
             \<lparr>chat_id = Some 1, from_id = None, msg_text = Some (ascii ''hi'')\<rparr> bot0) = Inl KeyError
   \<and> process_message accepting_world
         \<lparr>chat_id = Some 1, from_id = None, msg_text = Some (ascii ''hi'')\<rparr> bot0
       = (None, logger ERROR ''Error processing message'' bot0)"
proof -
  let ?w = typing_raises_world
  let ?m = "\<lparr>chat_id = Some 1, from_id = None, msg_text = Some (ascii ''hi'')\<rparr>"
  let ?p = "bot0\<lparr>update_offset := 9, calls := [GetUpdates 0]\<rparr>"
  have c1: "\<not> lacks_chat question_update" and c2: "\<not> lacks_chat start_update"
    and c3: "\<not> lacks_chat no_from_update"
    by (simp_all add: lacks_chat_def question_update_def start_update_def no_from_update_def)
  have p: "post_reply_of ?w [GetUpdates 0, SendChatAction 1] = PostRaises"
    by (simp add: typing_raises_world_def)
  have p': "post_reply_of ?w (calls ?p @ [SendChatAction 1]) = PostRaises"
    by (simp add: typing_raises_world_def)
  note A = exceptions_while_handling_a_batch[where w = ?w and us = "[question_update]"
      and vs = "[start_update]" and b = bot0 and u = start_update
      and batch = "[question_update, start_update]" and polled = ?p and n = 0
      and m = ?m and e = KeyError and chat = 1 and q = "ascii ''hi''"]
  note B = exceptions_while_handling_a_batch[where w = ?w and us = "[question_update, start_update]"
      and vs = "[]" and b = bot0 and u = start_update
      and batch = "[question_update, start_update]" and polled = ?p and n = 0
      and m = ?m and e = KeyError and chat = 1 and q = "ascii ''hi''"]
  note C = exceptions_while_handling_a_batch[where w = ?w and us = "[question_update]"
      and vs = "[]" and b = ?p and u = start_update
      and batch = "[question_update, start_update]" and polled = ?p and n = 0
      and m = ?m and e = KeyError and chat = 1 and q = "ascii ''hi''"]
  note E = exceptions_while_handling_a_batch[where w = ?w and us = "[question_update]"
      and vs = "[]" and b = bot0 and u = start_update
      and batch = "[question_update, start_update]" and polled = ?p and n = 0
      and m = ?m and e = KeyError and chat = 1 and q = "ascii ''hi''"]
  note D = exceptions_while_handling_a_batch[where w = accepting_world and us = "[no_from_update]"
      and vs = "[]" and b = bot0 and u = no_from_update
      and batch = "[]" and polled = bot0 and n = 0
      and m = ?m and e = KeyError and chat = 1 and q = "ascii ''hi''"]
  have h1: "\<forall>u\<in>set [question_update]. \<not> lacks_chat u" using c1 by simp
  have h2: "\<forall>u\<in>set [question_update, start_update]. \<not> lacks_chat u" using c1 c2 by simp
  have h3: "\<forall>u\<in>set ([question_update] @ [start_update]). \<not> lacks_chat u" using c1 c2 by simp
  have s1: "snd (for_updates ?w [question_update] bot0) = after_question bot0"
    by (simp add: handle_question_update)
  have s2: "snd (handle_update ?w start_update (after_question bot0)) = after_start (after_question bot0)"
    by (simp add: handle_start_update_typing_raises)
  have a1: "fst (for_updates ?w [question_update, start_update] bot0) = None"
    using B h2 by blast
  have a2: "for_updates ?w ([question_update] @ [start_update]) bot0
       = for_updates ?w [start_update] (snd (for_updates ?w [question_update] bot0))"
    using A h1 by blast
  have a3: "for_updates ?w ([question_update] @ start_update # []) bot0
       = for_updates ?w []
           (snd (handle_update ?w start_update (snd (for_updates ?w [question_update] bot0))))"
    using E h3 by blast
  have a4: "run_iteration ?w bot0 = snd (for_updates ?w [question_update, start_update] ?p)"
    and a5: "run (Suc 0) ?w bot0 = run 0 ?w (snd (for_updates ?w [question_update, start_update] ?p))"
    using A h2 get_question_batch by blast+
  have a6: "calls (handle_question ?w 1 (ascii ''hi'') ?p)
       = calls ?p @ [SendChatAction 1, SendMessage 1 error_message]"
    using C p' by blast
  have a7: "process_message accepting_world ?m bot0
       = (None, logger ERROR ''Error processing message'' (snd (process_message_try accepting_world ?m bot0)))"
    and f: "fst (process_message_try accepting_world ?m bot0) = Inl KeyError"
    using D by (simp_all add: process_message_try_def)
  have f': "snd (process_message_try accepting_world ?m bot0) = bot0"
    by (simp add: process_message_try_def)
  have r: "snd (for_updates ?w [question_update, start_update] ?p) = after_start (after_question ?p)"
    by (simp add: for_question_batch del: for_updates.simps)
  have b1: "for_updates ?w ([question_update] @ [start_update]) bot0
       = for_updates ?w [start_update] (after_question bot0)"
    using a2 unfolding s1 .
  have b2: "for_updates ?w ([question_update] @ start_update # []) bot0
       = (None, after_start (after_question bot0))"
    using a3 unfolding s1 s2 by simp
  have b3: "calls (handle_question ?w 1 (ascii ''hi'') ?p)
       = [GetUpdates 0, SendChatAction 1, SendMessage 1 error_message]"
    using a6 by simp
  have b4: "calls (run_iteration ?w bot0)
       = [GetUpdates 0, SendChatAction 1, SendMessage 1 error_message,
          SendMessage 1 SYSTEM_PROMPTS_welcome]"
    and b5: "logs (run_iteration ?w bot0)
       = [(INFO, ''Processing message''), (ERROR, ''Error handling question''),
          (INFO, ''Processing message'')]"
    unfolding a4 r by (simp_all add: after_start_def after_question_def bot0_def)
  have b6: "run (Suc 0) ?w bot0 = after_start (after_question ?p)"
    using a5 unfolding r by simp
  have b7: "process_message accepting_world ?m bot0
       = (None, logger ERROR ''Error processing message'' bot0)"
    using a7 unfolding f' .
  show ?thesis
    using c1 c2 p get_question_batch a1 b1 b2 b3 b4 b5 b6 c3 f b7 by blast
qed
section \<open>The Formatter applied twice\<close>

text \<open>
  Characters the four rules look at: asterisk, back quote and line feed. The tags the
  rules insert contain none of them.
\<close>

definition tag_text :: "pystr \<Rightarrow> bool" where
  "tag_text t \<longleftrightarrow> t \<noteq> [] \<and> 42 \<notin> set t \<and> 96 \<notin> set t \<and> 10 \<notin> set t"

text \<open>
  \<open>replaced d x y\<close>: \<open>y\<close> is \<open>x\<close> with some occurrences of the character \<open>d\<close> replaced,
  each by a tag text.
\<close>

inductive replaced :: "nat \<Rightarrow> pystr \<Rightarrow> pystr \<Rightarrow> bool" for d :: nat where
  Nil: "replaced d [] []"
| Keep: "replaced d x y \<Longrightarrow> replaced d (c # x) (c # y)"
| Repl: "replaced d x y \<Longrightarrow> tag_text t \<Longrightarrow> replaced d (d # x) (t @ y)"

inductive_cases replaced_NilE: "replaced d [] y"
inductive_cases replaced_ConsE: "replaced d (a # x) y"

lemma replaced_refl [simp]: "replaced d x x"
  by (induction x) (auto intro: replaced.intros)

lemma replaced_append: "replaced d x y \<Longrightarrow> replaced d x' y' \<Longrightarrow> replaced d (x @ x') (y @ y')"
  by (induction rule: replaced.induct) (auto intro: replaced.intros)

lemma replaced_two:
  "replaced d x y \<Longrightarrow> tag_text [a] \<Longrightarrow> tag_text t \<Longrightarrow> replaced d (d # d # x) (a # t @ y)"
  using replaced.Repl[of d "d # x" "t @ y" "[a]"] replaced.Repl[of d x y t] by simp

lemma replaced_three:
  "replaced d x y \<Longrightarrow> tag_text [a] \<Longrightarrow> tag_text [b] \<Longrightarrow> tag_text t \<Longrightarrow>
   replaced d (d # d # d # x) (a # b # t @ y)"
  using replaced.Repl[of d "d # d # x" "b # t @ y" "[a]"] replaced_two[of d x y b t] by simp

lemma replaced_b_open: "replaced 42 x y \<Longrightarrow> replaced 42 (42 # 42 # x) (b_open @ y)"
  using replaced_two[of 42 x y 60 "[98, 62]"] by (simp add: b_open_def ascii_def tag_text_def)

lemma replaced_b_close: "replaced 42 x y \<Longrightarrow> replaced 42 (42 # 42 # x) (b_close @ y)"
  using replaced_two[of 42 x y 60 "[47, 98, 62]"] by (simp add: b_close_def ascii_def tag_text_def)

lemma replaced_i_open: "replaced 42 x y \<Longrightarrow> replaced 42 (42 # x) (i_open @ y)"
  using replaced.Repl[of 42 x y i_open] by (simp add: i_open_def ascii_def tag_text_def)

lemma replaced_i_close: "replaced 42 x y \<Longrightarrow> replaced 42 (42 # x) (i_close @ y)"
  using replaced.Repl[of 42 x y i_close] by (simp add: i_close_def ascii_def tag_text_def)

lemma replaced_code_open1: "replaced 96 x y \<Longrightarrow> replaced 96 (96 # x) (code_open @ y)"
  using replaced.Repl[of 96 x y code_open] by (simp add: code_open_def ascii_def tag_text_def)

lemma replaced_code_close1: "replaced 96 x y \<Longrightarrow> replaced 96 (96 # x) (code_close @ y)"
  using replaced.Repl[of 96 x y code_close] by (simp add: code_close_def ascii_def tag_text_def)

lemma replaced_code_open3: "replaced 96 x y \<Longrightarrow> replaced 96 (96 # 96 # 96 # x) (code_open @ y)"
  using replaced_three[of 96 x y 60 99 "[111, 100, 101, 62]"]
  by (simp add: code_open_def ascii_def tag_text_def)

lemma replaced_code_close3: "replaced 96 x y \<Longrightarrow> replaced 96 (96 # 96 # 96 # x) (code_close @ y)"
  using replaced_three[of 96 x y 60 47 "[99, 111, 100, 101, 62]"]
  by (simp add: code_close_def ascii_def tag_text_def)

subsection \<open>What the matchers return\<close>

lemma lazy_bold_Some:
  "lazy_bold t = Some (x, rest) \<Longrightarrow> t = x @ 42 # 42 # rest \<and> 10 \<notin> set x"
  by (induction t arbitrary: x rule: lazy_bold.induct) (auto split: if_splits)

lemma lazy_block_Some:
  "lazy_block t = Some (x, rest) \<Longrightarrow> t = x @ 96 # 96 # 96 # rest"
  by (induction t arbitrary: x rule: lazy_block.induct) (auto split: if_splits)

lemma match_italic_Some:
  assumes "match_italic t = Some (x, rest)"
  shows "t = x @ 42 # rest" "x \<noteq> []" "42 \<notin> set x" "rest = [] \<or> hd rest \<noteq> 42"
proof -
  let ?x = "takeWhile (\<lambda>c. c \<noteq> 42) t" and ?r = "dropWhile (\<lambda>c. c \<noteq> 42) t"
  from assms have x: "x = ?x" and r: "?r \<noteq> []" and rest: "rest = tl ?r" and ne: "?x \<noteq> []"
    and la: "case tl ?r of [] \<Rightarrow> True | e # _ \<Rightarrow> e \<noteq> 42"
    by (auto simp: match_italic_def Let_def split: if_splits)
  have "hd ?r = 42" using r hd_dropWhile[of "\<lambda>c. c \<noteq> 42" t] by auto
  then have "?r = 42 # rest" using r rest by (cases ?r) auto
  then show "t = x @ 42 # rest" using x takeWhile_dropWhile_id[of "\<lambda>c. c \<noteq> 42" t] by simp
  show "x \<noteq> []" using x ne by simp
  show "42 \<notin> set x" using x by (auto dest: set_takeWhileD)
  show "rest = [] \<or> hd rest \<noteq> 42" using la rest by (cases "tl ?r") auto
qed

lemma match_code_Some:
  assumes "match_code t = Some (x, rest)"
  shows "t = x @ 96 # rest" "x \<noteq> []" "96 \<notin> set x"
proof -
  let ?x = "takeWhile (\<lambda>c. c \<noteq> 96) t" and ?r = "dropWhile (\<lambda>c. c \<noteq> 96) t"
  from assms have x: "x = ?x" and r: "?r \<noteq> []" and rest: "rest = tl ?r" and ne: "?x \<noteq> []"
    by (auto simp: match_code_def Let_def split: if_splits)
  have "hd ?r = 96" using r hd_dropWhile[of "\<lambda>c. c \<noteq> 96" t] by auto
  then have "?r = 96 # rest" using r rest by (cases ?r) auto
  then show "t = x @ 96 # rest" using x takeWhile_dropWhile_id[of "\<lambda>c. c \<noteq> 96" t] by simp
  show "x \<noteq> []" using x ne by simp
  show "96 \<notin> set x" using x by (auto dest: set_takeWhileD)
qed

subsection \<open>Each rule replaces its own delimiter by tags\<close>

lemma replaced_sub_bold: "replaced 42 t (sub_bold t)"
proof (induction t rule: sub_bold.induct)
  case (1 c d r)
  show ?case
  proof (cases "c = 42 \<and> d = 42")
    case True
    show ?thesis
    proof (cases "lazy_bold r")
      case None
      then show ?thesis using True 1 by (auto intro: replaced.Keep)
    next
      case (Some a)
      obtain x rest where a: "a = (x, rest)" by (cases a)
      have r: "r = x @ 42 # 42 # rest" using lazy_bold_Some Some a by blast
      have "replaced 42 rest (sub_bold rest)" using 1 True Some a by auto
      then have "replaced 42 (42 # 42 # rest) (b_close @ sub_bold rest)" by (rule replaced_b_close)
      then have "replaced 42 (x @ 42 # 42 # rest) (x @ b_close @ sub_bold rest)"
        using replaced_append[of 42 x x] by simp
      then have "replaced 42 (42 # 42 # x @ 42 # 42 # rest) (b_open @ x @ b_close @ sub_bold rest)"
        by (rule replaced_b_open)
      then show ?thesis using True Some a r by simp
    qed
  next
    case False
    then show ?thesis using 1 by (auto intro: replaced.Keep)
  qed
qed simp_all

lemma replaced_sub_italic: "replaced 42 t (sub_italic prev t)"
proof (induction prev t rule: sub_italic.induct)
  case (1 prev c cs)
  show ?case
  proof (cases "c = 42 \<and> prev \<noteq> Some 42")
    case True
    show ?thesis
    proof (cases "match_italic cs")
      case None
      then show ?thesis using True 1 by (auto intro: replaced.Keep)
    next
      case (Some a)
      obtain x rest where a: "a = (x, rest)" by (cases a)
      have r: "cs = x @ 42 # rest" using match_italic_Some(1) Some a by blast
      have "replaced 42 rest (sub_italic (Some 42) rest)" using 1 True Some a by auto
      then have "replaced 42 (42 # rest) (i_close @ sub_italic (Some 42) rest)"
        by (rule replaced_i_close)
      then have "replaced 42 (x @ 42 # rest) (x @ i_close @ sub_italic (Some 42) rest)"
        using replaced_append[of 42 x x] by simp
      then have "replaced 42 (42 # x @ 42 # rest) (i_open @ x @ i_close @ sub_italic (Some 42) rest)"
        by (rule replaced_i_open)
      then show ?thesis using True Some a r by simp
    qed
  next
    case False
    then show ?thesis using 1 by (auto intro: replaced.Keep)
  qed
qed simp

lemma replaced_sub_block: "replaced 96 t (sub_block t)"
proof (induction t rule: sub_block.induct)
  case (1 c d e r)
  show ?case
  proof (cases "c = 96 \<and> d = 96 \<and> e = 96")
    case True
    show ?thesis
    proof (cases "lazy_block r")
      case None
      then show ?thesis using True 1 by (auto intro: replaced.Keep)
    next
      case (Some a)
      obtain x rest where a: "a = (x, rest)" by (cases a)
      have r: "r = x @ 96 # 96 # 96 # rest" using lazy_block_Some Some a by blast
      have "replaced 96 rest (sub_block rest)" using 1 True Some a by auto
      then have "replaced 96 (96 # 96 # 96 # rest) (code_close @ sub_block rest)"
        by (rule replaced_code_close3)
      then have "replaced 96 (x @ 96 # 96 # 96 # rest) (x @ code_close @ sub_block rest)"
        using replaced_append[of 96 x x] by simp
      then have "replaced 96 (96 # 96 # 96 # x @ 96 # 96 # 96 # rest)
          (code_open @ x @ code_close @ sub_block rest)"
        by (rule replaced_code_open3)
      then show ?thesis using True Some a r by simp
    qed
  next
    case False
    then show ?thesis using 1 by (auto intro: replaced.Keep)
  qed
qed simp_all

lemma replaced_sub_code: "replaced 96 t (sub_code t)"
proof (induction t rule: sub_code.induct)
  case (1 c cs)
  show ?case
  proof (cases "c = 96")
    case True
    show ?thesis
    proof (cases "match_code cs")
      case None
      then show ?thesis using True 1 by (auto intro: replaced.Keep)
    next
      case (Some a)
      obtain x rest where a: "a = (x, rest)" by (cases a)
      have r: "cs = x @ 96 # rest" using match_code_Some(1) Some a by blast
      have "replaced 96 rest (sub_code rest)" using 1 True Some a by auto
      then have "replaced 96 (96 # rest) (code_close @ sub_code rest)"
        by (rule replaced_code_close1)
      then have "replaced 96 (x @ 96 # rest) (x @ code_close @ sub_code rest)"
        using replaced_append[of 96 x x] by simp
      then have "replaced 96 (96 # x @ 96 # rest) (code_open @ x @ code_close @ sub_code rest)"
        by (rule replaced_code_open1)
      then show ?thesis using True Some a r by simp
    qed
  next
    case False
    then show ?thesis using 1 by (auto intro: replaced.Keep)
  qed
qed simp

subsection \<open>Facts about the relation\<close>

lemma tag_text_Cons: "tag_text (a # t) \<Longrightarrow> a \<noteq> 42 \<and> a \<noteq> 96 \<and> a \<noteq> 10 \<and> (t = [] \<or> tag_text t)"
  by (auto simp: tag_text_def)

inductive_cases replaced_to_ConsE: "replaced d x (c # y)"

lemma replaced_kept_head:
  assumes "replaced d x (c # y)" "c = 42 \<or> c = 96 \<or> c = 10"
  shows "\<exists>x'. x = c # x' \<and> replaced d x' y"
  using assms(1)
proof (rule replaced_to_ConsE)
  fix x' assume "x = c # x'" "replaced d x' y"
  then show ?thesis by blast
next
  fix x' y' t assume t: "tag_text t" "c # y = t @ y'"
  then have "c \<in> set t" by (cases t) (auto simp: tag_text_def)
  then show ?thesis using t(1) assms(2) by (auto simp: tag_text_def)
qed

lemma replaced_kept_split:
  assumes "replaced d x y" "y = y1 @ c # y2" "c = 42 \<or> c = 96 \<or> c = 10"
  shows "\<exists>x1 x2. x = x1 @ c # x2 \<and> replaced d x1 y1 \<and> replaced d x2 y2"
  using assms
proof (induction arbitrary: y1 rule: replaced.induct)
  case Nil
  then show ?case by simp
next
  case (Keep x y a)
  show ?case
  proof (cases y1)
    case Nil
    then have "a = c" "y = y2" using Keep.prems by simp_all
    then show ?thesis using Keep.hyps Nil by (intro exI[of _ "[]"] exI[of _ x]) simp
  next
    case (Cons b y1')
    then have "y = y1' @ c # y2" "a = b" using Keep.prems by simp_all
    then obtain x1 x2 where "x = x1 @ c # x2" "replaced d x1 y1'" "replaced d x2 y2"
      using Keep.IH Keep.prems(2) by blast
    then show ?thesis using Cons \<open>a = b\<close>
      by (intro exI[of _ "a # x1"] exI[of _ x2]) (auto intro: replaced.Keep)
  qed
next
  case (Repl x y t)
  have "c \<notin> set t" using Repl.hyps(2) Repl.prems(2) by (auto simp: tag_text_def)
  then obtain y1' where y1: "y1 = t @ y1'" "y = y1' @ c # y2"
    using Repl.prems(1) by (auto simp: append_eq_append_conv2 append_eq_Cons_conv)
  then obtain x1 x2 where "x = x1 @ c # x2" "replaced d x1 y1'" "replaced d x2 y2"
    using Repl.IH Repl.prems(2) by blast
  then show ?case using y1 Repl.hyps(2)
    by (intro exI[of _ "d # x1"] exI[of _ x2]) (auto intro: replaced.Repl)
qed

lemma replaced_no_newline: "replaced d x y \<Longrightarrow> d \<noteq> 10 \<Longrightarrow> 10 \<notin> set y \<Longrightarrow> 10 \<notin> set x"
  by (induction rule: replaced.induct) auto

lemma replaced_no_star: "replaced 96 x y \<Longrightarrow> 42 \<notin> set y \<Longrightarrow> 42 \<notin> set x"
  by (induction rule: replaced.induct) auto

lemma replaced_backquotes: "replaced 42 x y \<Longrightarrow> 96 \<in> set y \<longleftrightarrow> 96 \<in> set x"
  by (induction rule: replaced.induct) (auto simp: tag_text_def)

lemma replaced_empty: "replaced d x y \<Longrightarrow> y = [] \<longleftrightarrow> x = []"
  by (induction rule: replaced.induct) (auto simp: tag_text_def)

lemma replaced_hd_star:
  "replaced 96 x y \<Longrightarrow> y = [] \<or> hd y \<noteq> 42 \<Longrightarrow> x = [] \<or> hd x \<noteq> 42"
  by (induction rule: replaced.induct) auto

subsection \<open>Bold: no match is left, and none appears\<close>

text \<open>\<open>has_bold t\<close>: the pattern of the first rule matches somewhere in \<open>t\<close>.\<close>

definition bold_ahead :: "pystr \<Rightarrow> bool" where
  "bold_ahead t \<longleftrightarrow> lazy_bold t \<noteq> None"

lemma not_bold_ahead: "\<not> bold_ahead r \<Longrightarrow> lazy_bold r = None"
  unfolding bold_ahead_def by blast

fun has_bold :: "pystr \<Rightarrow> bool" where
  "has_bold (c # d # r) = (c = 42 \<and> d = 42 \<and> bold_ahead r \<or> has_bold (d # r))"
| "has_bold _ = False"

fun has_pair :: "pystr \<Rightarrow> bool" where
  "has_pair (c # d # r) = (c = 42 \<and> d = 42 \<or> has_pair (d # r))"
| "has_pair _ = False"

lemma sub_bold_no_match: "\<not> has_bold t \<Longrightarrow> sub_bold t = t"
proof (induction t rule: sub_bold.induct)
  case (1 c d r)
  have n: "\<not> (c = 42 \<and> d = 42 \<and> bold_ahead r)" and h: "\<not> has_bold (d # r)"
    using 1(4) by simp_all
  show ?case
  proof (cases "c = 42 \<and> d = 42")
    case True
    then have "lazy_bold r = None" using n not_bold_ahead by blast
    then show ?thesis using True 1(1) h by simp
  next
    case False
    then show ?thesis using 1(3) h by auto
  qed
qed simp_all

lemma has_bold_Cons:
  "has_bold (c # t) \<longleftrightarrow> (c = 42 \<and> (\<exists>r. t = 42 # r \<and> bold_ahead r)) \<or> has_bold t"
  by (cases t) auto

lemma has_pair_Cons: "has_pair (c # t) \<longleftrightarrow> (c = 42 \<and> (\<exists>r. t = 42 # r)) \<or> has_pair t"
  by (cases t) auto

lemma bold_ahead_Nil [simp]: "\<not> bold_ahead []"
  by (simp add: bold_ahead_def)

lemma bold_ahead_Cons:
  "bold_ahead (c # t) \<longleftrightarrow> (c = 42 \<and> (\<exists>r. t = 42 # r)) \<or> (c \<noteq> 10 \<and> bold_ahead t)"
  by (cases t) (auto simp: bold_ahead_def)

lemma bold_ahead_tag: "tag_text t \<Longrightarrow> bold_ahead (t @ y) \<longleftrightarrow> bold_ahead y"
proof (induction t)
  case Nil
  then show ?case by (simp add: tag_text_def)
next
  case (Cons a t)
  have a: "a \<noteq> 42" "a \<noteq> 10" and t: "t = [] \<or> tag_text t" using tag_text_Cons[OF Cons.prems] by auto
  show ?case
  proof (cases "t = []")
    case True
    then show ?thesis using a by (simp add: bold_ahead_Cons)
  next
    case False
    then show ?thesis using a t Cons.IH by (simp add: bold_ahead_Cons)
  qed
qed

lemma has_bold_tag: "tag_text t \<Longrightarrow> has_bold (t @ y) \<longleftrightarrow> has_bold y"
proof (induction t)
  case Nil
  then show ?case by (simp add: tag_text_def)
next
  case (Cons a t)
  have a: "a \<noteq> 42" and t: "t = [] \<or> tag_text t" using tag_text_Cons[OF Cons.prems] by auto
  show ?case
  proof (cases "t = []")
    case True
    then show ?thesis using a by (simp add: has_bold_Cons del: has_bold.simps)
  next
    case False
    then show ?thesis using a t Cons.IH by (simp add: has_bold_Cons del: has_bold.simps)
  qed
qed

lemma bold_ahead_back:
  "replaced d x y \<Longrightarrow> d \<noteq> 10 \<Longrightarrow> bold_ahead y \<Longrightarrow> bold_ahead x"
proof (induction rule: replaced.induct)
  case Nil
  then show ?case by simp
next
  case (Keep x y c)
  from Keep.prems(2) consider r where "c = 42" "y = 42 # r" | "c \<noteq> 10" "bold_ahead y"
    by (auto simp: bold_ahead_Cons)
  then show ?case
  proof cases
    case 1
    then obtain x' where "x = 42 # x'" using Keep.hyps replaced_kept_head by blast
    then show ?thesis using 1 by (simp add: bold_ahead_Cons)
  next
    case 2
    then show ?thesis using Keep by (simp add: bold_ahead_Cons)
  qed
next
  case (Repl x y t)
  then show ?case by (simp add: bold_ahead_tag bold_ahead_Cons)
qed

lemma has_bold_back:
  "replaced d x y \<Longrightarrow> d \<noteq> 10 \<Longrightarrow> has_bold y \<Longrightarrow> has_bold x"
proof (induction rule: replaced.induct)
  case Nil
  then show ?case by simp
next
  case (Keep x y c)
  from Keep.prems(2) consider r where "c = 42" "y = 42 # r" "bold_ahead r" | "has_bold y"
    by (auto simp: has_bold_Cons simp del: has_bold.simps)
  then show ?case
  proof cases
    case 1
    then obtain x' where x': "x = 42 # x'" "replaced d x' r"
      using Keep.hyps replaced_kept_head by blast
    then have "bold_ahead x'" using 1(3) Keep.prems(1) bold_ahead_back by blast
    then show ?thesis using 1 x' by simp
  next
    case 2
    then show ?thesis using Keep by (simp add: has_bold_Cons del: has_bold.simps)
  qed
next
  case (Repl x y t)
  then show ?case by (simp add: has_bold_tag has_bold_Cons del: has_bold.simps)
qed

lemma sub_bold_unmatched:
  assumes "\<not> (c = 42 \<and> d = 42 \<and> bold_ahead r)"
  shows "sub_bold (c # d # r) = c # sub_bold (d # r)"
proof (cases "c = 42 \<and> d = 42")
  case True
  then have "lazy_bold r = None" using assms not_bold_ahead by blast
  then show ?thesis by simp
next
  case False
  then show ?thesis by auto
qed

lemma sub_bold_matched:
  "lazy_bold r = Some (x, rest) \<Longrightarrow>
   sub_bold (42 # 42 # r) = b_open @ x @ b_close @ sub_bold rest"
  by simp

lemma sub_bold_star_head:
  assumes "sub_bold t = 42 # w"
  shows "\<exists>t'. t = 42 # t' \<and> w = sub_bold t'"
proof (cases t rule: sub_bold.cases)
  case (1 c d r)
  show ?thesis
  proof (cases "c = 42 \<and> d = 42 \<and> bold_ahead r")
    case True
    then obtain x rest where "lazy_bold r = Some (x, rest)" by (auto simp: bold_ahead_def)
    then have "hd (sub_bold t) = 60" using 1 True by (simp add: b_open_def ascii_def)
    then show ?thesis using assms by simp
  next
    case False
    then have "sub_bold t = c # sub_bold (d # r)" using 1 sub_bold_unmatched by blast
    then show ?thesis using assms 1 by auto
  qed
next
  case (2 c)
  then show ?thesis using assms by auto
next
  case 3
  then show ?thesis using assms by simp
qed

lemma lazy_bold_no_pair: "lazy_bold t = Some (x, rest) \<Longrightarrow> \<not> has_pair x"
proof (induction t arbitrary: x rule: lazy_bold.induct)
  case (1 c d r)
  show ?case
  proof (cases "c = 42 \<and> d = 42")
    case True
    then show ?thesis using 1(2) by simp
  next
    case False
    then obtain x' where x': "lazy_bold (d # r) = Some (x', rest)" "x = c # x'" "c \<noteq> 10"
      using 1(2) by (auto split: if_splits)
    have np: "\<not> has_pair x'" using 1(1) False x' by auto
    have "d # r = x' @ 42 # 42 # rest" using lazy_bold_Some x'(1) by blast
    then have "x' = [] \<or> hd x' = d" by (cases x') auto
    then have "\<not> (c = 42 \<and> (\<exists>r'. x' = 42 # r'))" using False by auto
    then show ?thesis using np x'(2) by (simp add: has_pair_Cons del: has_pair.simps)
  qed
qed simp_all

lemma has_bold_skip:
  "\<not> has_pair x \<Longrightarrow> tag_text t \<Longrightarrow> has_bold (x @ t @ y) \<longleftrightarrow> has_bold y"
proof (induction x)
  case Nil
  then show ?case by (simp add: has_bold_tag)
next
  case (Cons c x)
  have np: "\<not> has_pair x" and nh: "\<not> (c = 42 \<and> (\<exists>r. x = 42 # r))"
    using Cons.prems(1) by (auto simp: has_pair_Cons simp del: has_pair.simps)
  have "hd (t @ y) \<noteq> 42" using Cons.prems(2) by (cases t) (auto simp: tag_text_def)
  then have "\<not> (c = 42 \<and> (\<exists>r. x @ t @ y = 42 # r \<and> bold_ahead r))"
    using nh by (cases x) auto
  moreover have "has_bold (x @ t @ y) \<longleftrightarrow> has_bold y" using Cons.IH np Cons.prems(2) by blast
  ultimately show ?case
    unfolding append_Cons has_bold_Cons by blast
qed

lemma tag_text_b_open: "tag_text b_open" and tag_text_b_close: "tag_text b_close"
  and tag_text_i_open: "tag_text i_open" and tag_text_i_close: "tag_text i_close"
  and tag_text_code_open: "tag_text code_open" and tag_text_code_close: "tag_text code_close"
  by (simp_all add: tag_text_def b_open_def b_close_def i_open_def i_close_def code_open_def
      code_close_def ascii_def)

lemma sub_bold_leaves_no_match: "\<not> has_bold (sub_bold t)"
proof (induction t rule: sub_bold.induct)
  case (1 c d r)
  show ?case
  proof (cases "c = 42 \<and> d = 42 \<and> bold_ahead r")
    case True
    then obtain x rest where m: "lazy_bold r = Some (x, rest)" by (auto simp: bold_ahead_def)
    have ih: "\<not> has_bold (sub_bold rest)" using 1(2) True m by blast
    have "has_bold (b_open @ x @ b_close @ sub_bold rest) \<longleftrightarrow> has_bold (sub_bold rest)"
      using lazy_bold_no_pair[OF m]
      by (simp add: has_bold_tag has_bold_skip tag_text_b_open tag_text_b_close)
    then show ?thesis using True sub_bold_matched[OF m] ih by simp
  next
    case False
    then have s: "sub_bold (c # d # r) = c # sub_bold (d # r)" by (rule sub_bold_unmatched)
    have ih: "\<not> has_bold (sub_bold (d # r))"
    proof (cases "c = 42 \<and> d = 42")
      case True
      then have "lazy_bold r = None" using False not_bold_ahead by blast
      then show ?thesis using 1(1) True by blast
    next
      case False
      then show ?thesis using 1(3) by blast
    qed
    have "\<not> (c = 42 \<and> (\<exists>r'. sub_bold (d # r) = 42 # r' \<and> bold_ahead r'))"
    proof
      assume a: "c = 42 \<and> (\<exists>r'. sub_bold (d # r) = 42 # r' \<and> bold_ahead r')"
      then obtain r' where r': "sub_bold (d # r) = 42 # r'" "bold_ahead r'" by blast
      then obtain t' where "d # r = 42 # t'" "r' = sub_bold t'" using sub_bold_star_head by blast
      then have d: "d = 42" and r'': "r' = sub_bold r" by simp_all
      have "bold_ahead r"
        using bold_ahead_back[OF replaced_sub_bold[of r]] r'(2) r'' by simp
      then show False using False a d by simp
    qed
    then show ?thesis unfolding s using ih by (simp add: has_bold_Cons del: has_bold.simps)
  qed
qed simp_all

subsection \<open>Italic: no match is left, and none appears\<close>

definition italic_ahead :: "pystr \<Rightarrow> bool" where
  "italic_ahead t \<longleftrightarrow> match_italic t \<noteq> None"

text \<open>\<open>has_italic prev t\<close>: the pattern of the second rule matches somewhere in \<open>t\<close>.\<close>

fun has_italic :: "nat option \<Rightarrow> pystr \<Rightarrow> bool" where
  "has_italic prev (c # cs) = (c = 42 \<and> prev \<noteq> Some 42 \<and> italic_ahead cs \<or> has_italic (Some c) cs)"
| "has_italic prev [] = False"

lemma not_italic_ahead: "\<not> italic_ahead t \<Longrightarrow> match_italic t = None"
  unfolding italic_ahead_def by blast

lemma star_split:
  "42 \<notin> set x \<Longrightarrow>
   takeWhile (\<lambda>c. c \<noteq> 42) (x @ 42 # r) = x \<and> dropWhile (\<lambda>c. c \<noteq> 42) (x @ 42 # r) = 42 # r"
  by (induction x) auto

lemma italic_aheadI:
  assumes "t = x @ 42 # rest" "x \<noteq> []" "42 \<notin> set x" "rest = [] \<or> hd rest \<noteq> 42"
  shows "match_italic t = Some (x, rest)"
proof -
  have tw: "takeWhile (\<lambda>c. c \<noteq> 42) t = x"
    using star_split[OF assms(3), of rest] assms(1) by simp
  have dw: "dropWhile (\<lambda>c. c \<noteq> 42) t = 42 # rest"
    using star_split[OF assms(3), of rest] assms(1) by simp
  show ?thesis using assms(2,4) by (cases rest) (simp_all add: match_italic_def tw dw)
qed

lemma italic_ahead_iff:
  "italic_ahead t \<longleftrightarrow>
     (\<exists>x rest. t = x @ 42 # rest \<and> x \<noteq> [] \<and> 42 \<notin> set x \<and> (rest = [] \<or> hd rest \<noteq> 42))"
proof
  assume "italic_ahead t"
  then obtain a where "match_italic t = Some a" unfolding italic_ahead_def by blast
  then obtain x rest where m: "match_italic t = Some (x, rest)" by (cases a) simp
  show "\<exists>x rest. t = x @ 42 # rest \<and> x \<noteq> [] \<and> 42 \<notin> set x \<and> (rest = [] \<or> hd rest \<noteq> 42)"
    using match_italic_Some[OF m] by blast
next
  assume "\<exists>x rest. t = x @ 42 # rest \<and> x \<noteq> [] \<and> 42 \<notin> set x \<and> (rest = [] \<or> hd rest \<noteq> 42)"
  then obtain x rest where "t = x @ 42 # rest" "x \<noteq> []" "42 \<notin> set x" "rest = [] \<or> hd rest \<noteq> 42"
    by blast
  then have "match_italic t = Some (x, rest)" by (rule italic_aheadI)
  then show "italic_ahead t" unfolding italic_ahead_def by simp
qed

lemma first_star_unique:
  assumes "a @ 42 # b = c @ 42 # d" "(42::nat) \<notin> set a" "42 \<notin> set c"
  shows "a = c \<and> b = d"
proof -
  have "takeWhile (\<lambda>c. c \<noteq> 42) (a @ 42 # b) = a" using star_split[OF assms(2)] by simp
  moreover have "takeWhile (\<lambda>c. c \<noteq> 42) (c @ 42 # d) = c" using star_split[OF assms(3)] by simp
  ultimately have "a = c" using assms(1) by simp
  then show ?thesis using assms(1) by simp
qed

lemma sub_italic_unmatched:
  assumes "\<not> (c = 42 \<and> prev \<noteq> Some 42 \<and> italic_ahead cs)"
  shows "sub_italic prev (c # cs) = c # sub_italic (Some c) cs"
proof (cases "c = 42 \<and> prev \<noteq> Some 42")
  case True
  then have "match_italic cs = None" using assms not_italic_ahead by blast
  then show ?thesis by simp
next
  case False
  then show ?thesis by auto
qed

lemma sub_italic_matched:
  "prev \<noteq> Some 42 \<Longrightarrow> match_italic cs = Some (x, rest) \<Longrightarrow>
   sub_italic prev (42 # cs) = i_open @ x @ i_close @ sub_italic (Some 42) rest"
  by simp

lemma sub_italic_no_match: "\<not> has_italic prev t \<Longrightarrow> sub_italic prev t = t"
proof (induction t arbitrary: prev)
  case Nil
  then show ?case by simp
next
  case (Cons c cs)
  then have "\<not> (c = 42 \<and> prev \<noteq> Some 42 \<and> italic_ahead cs)" "\<not> has_italic (Some c) cs"
    by simp_all
  then show ?case using Cons.IH sub_italic_unmatched by simp
qed

lemma sub_italic_plain_prefix:
  "42 \<notin> set q \<Longrightarrow>
   sub_italic prev (q @ t) = q @ sub_italic (if q = [] then prev else Some (last q)) t"
proof (induction q arbitrary: prev)
  case Nil
  then show ?case by simp
next
  case (Cons c q)
  have "sub_italic prev (c # q @ t) = c # sub_italic (Some c) (q @ t)"
    using Cons.prems by (intro sub_italic_unmatched) simp
  then show ?case using Cons by simp
qed

lemma sub_italic_plain: "42 \<notin> set q \<Longrightarrow> sub_italic prev q = q"
  using sub_italic_plain_prefix[of q prev "[]"] by simp

lemma sub_italic_head:
  "t = [] \<or> hd t \<noteq> 42 \<Longrightarrow> sub_italic prev t = [] \<or> hd (sub_italic prev t) \<noteq> 42"
  by (cases t) (auto simp: sub_italic_unmatched simp del: sub_italic.simps(1))

lemma italic_ahead_sub_italic:
  assumes "italic_ahead (sub_italic (Some 42) cs)"
  shows "italic_ahead cs"
proof -
  obtain p s where w: "sub_italic (Some 42) cs = p @ 42 # s" "p \<noteq> []" "42 \<notin> set p"
      "s = [] \<or> hd s \<noteq> 42"
    using assms italic_ahead_iff by blast
  let ?q = "takeWhile (\<lambda>c. c \<noteq> 42) cs" and ?r = "dropWhile (\<lambda>c. c \<noteq> 42) cs"
  have cs: "cs = ?q @ ?r" by simp
  have q: "42 \<notin> set ?q" by (auto dest: set_takeWhileD)
  show ?thesis
  proof (cases ?r)
    case Nil
    then have "42 \<notin> set cs" using cs q by (metis append_Nil2)
    then have "sub_italic (Some 42) cs = cs" by (rule sub_italic_plain)
    then show ?thesis using assms by simp
  next
    case (Cons a r')
    then have a: "a = 42" using hd_dropWhile[of "\<lambda>c. c \<noteq> 42" cs] by (metis list.sel(1) list.simps(3))
    have cs': "cs = ?q @ 42 # r'" using cs Cons a by simp
    show ?thesis
    proof (cases "?q = []")
      case True
      then have "cs = 42 # r'" using cs' by simp
      then have "sub_italic (Some 42) cs = 42 # sub_italic (Some 42) r'"
        by (simp add: sub_italic_unmatched del: sub_italic.simps)
      then have "hd (p @ 42 # s) = 42" using w(1) by simp
      then show ?thesis using w(2,3) by (cases p) auto
    next
      case False
      have out: "sub_italic (Some 42) cs = ?q @ sub_italic (Some (last ?q)) (42 # r')"
        using sub_italic_plain_prefix[OF q, of "Some 42" "42 # r'"] cs' False by simp
      show ?thesis
      proof (cases "italic_ahead r'")
        case True
        then obtain x0 rest0 where "r' = x0 @ 42 # rest0" "x0 \<noteq> []" "42 \<notin> set x0"
          using italic_ahead_iff[of r'] by blast
        then have "r' \<noteq> [] \<and> hd r' \<noteq> 42" by (cases x0) auto
        then show ?thesis using italic_ahead_iff cs' False q by blast
      next
        case nia: False
        have "sub_italic (Some (last ?q)) (42 # r') = 42 # sub_italic (Some 42) r'"
          using nia by (intro sub_italic_unmatched) simp
        then have "?q @ 42 # sub_italic (Some 42) r' = p @ 42 # s" using out w(1) by simp
        then have s: "s = sub_italic (Some 42) r'" using first_star_unique q w(3) by blast
        have "r' = [] \<or> hd r' \<noteq> 42"
        proof (rule ccontr)
          assume "\<not> (r' = [] \<or> hd r' \<noteq> 42)"
          then obtain r'' where "r' = 42 # r''" by (cases r') auto
          then have "s = 42 # sub_italic (Some 42) r''"
            using s by (simp add: sub_italic_unmatched del: sub_italic.simps)
          then show False using w(4) by simp
        qed
        then show ?thesis using italic_ahead_iff cs' False q by blast
      qed
    qed
  qed
qed

lemma has_italic_plain_prefix:
  "42 \<notin> set q \<Longrightarrow> has_italic prev (q @ t) = has_italic (if q = [] then prev else Some (last q)) t"
  by (induction q arbitrary: prev) auto

lemma has_italic_plain_prefix':
  "42 \<notin> set q \<Longrightarrow> q \<noteq> [] \<Longrightarrow> has_italic prev (q @ t) = has_italic (Some (last q)) t"
  by (simp add: has_italic_plain_prefix)

lemma has_italic_prev:
  "t = [] \<or> hd t \<noteq> 42 \<Longrightarrow> has_italic prev t = has_italic prev' t"
  by (cases t) auto

lemma has_italic_not_star: "a \<noteq> 42 \<Longrightarrow> has_italic (Some a) t = has_italic None t"
  by (cases t) auto

lemma sub_italic_leaves_no_match: "\<not> has_italic prev (sub_italic prev t)"
proof (induction prev t rule: sub_italic.induct)
  case (1 prev c cs)
  show ?case
  proof (cases "c = 42 \<and> prev \<noteq> Some 42 \<and> italic_ahead cs")
    case True
    then obtain x rest where m: "match_italic cs = Some (x, rest)" by (auto simp: italic_ahead_def)
    have ih: "\<not> has_italic (Some 42) (sub_italic (Some 42) rest)" using 1(2) True m by blast
    let ?w = "sub_italic (Some 42) rest"
    have hd: "?w = [] \<or> hd ?w \<noteq> 42"
      using match_italic_Some(4)[OF m] by (rule sub_italic_head)
    have x: "42 \<notin> set x" using match_italic_Some(3)[OF m] .
    have pre: "42 \<notin> set (i_open @ x @ i_close)" "i_open @ x @ i_close \<noteq> []"
      using x tag_text_i_open tag_text_i_close by (auto simp: tag_text_def)
    have "has_italic prev ((i_open @ x @ i_close) @ ?w)
        = has_italic (Some (last (i_open @ x @ i_close))) ?w"
      using pre by (rule has_italic_plain_prefix')
    also have "\<dots> = has_italic (Some 42) ?w" using hd by (rule has_italic_prev)
    finally have "\<not> has_italic prev (i_open @ x @ i_close @ ?w)" using ih by simp
    then show ?thesis using True sub_italic_matched[OF _ m, of prev] by simp
  next
    case False
    then have s: "sub_italic prev (c # cs) = c # sub_italic (Some c) cs"
      by (rule sub_italic_unmatched)
    have ih: "\<not> has_italic (Some c) (sub_italic (Some c) cs)"
    proof (cases "c = 42 \<and> prev \<noteq> Some 42")
      case True
      then have "match_italic cs = None" using False not_italic_ahead by blast
      then show ?thesis using 1(1) True by blast
    next
      case False
      then show ?thesis using 1(3) by blast
    qed
    have "\<not> (c = 42 \<and> prev \<noteq> Some 42 \<and> italic_ahead (sub_italic (Some c) cs))"
      using False italic_ahead_sub_italic by blast
    then show ?thesis unfolding s using ih by simp
  qed
qed simp

lemma italic_ahead_back:
  assumes "replaced 96 x y" "italic_ahead y"
  shows "italic_ahead x"
proof -
  obtain p s where y: "y = p @ 42 # s" "p \<noteq> []" "42 \<notin> set p" "s = [] \<or> hd s \<noteq> 42"
    using assms(2) italic_ahead_iff by blast
  obtain x1 x2 where x: "x = x1 @ 42 # x2" "replaced 96 x1 p" "replaced 96 x2 s"
    using replaced_kept_split[OF assms(1) y(1)] by blast
  have "x1 \<noteq> []" using replaced_empty[OF x(2)] y(2) by simp
  moreover have "42 \<notin> set x1" using replaced_no_star[OF x(2)] y(3) by simp
  moreover have "x2 = [] \<or> hd x2 \<noteq> 42" using replaced_hd_star[OF x(3)] y(4) by simp
  ultimately show ?thesis using x(1) italic_ahead_iff by blast
qed

lemma has_italic_back:
  "replaced 96 x y \<Longrightarrow> has_italic prev y \<Longrightarrow> has_italic prev x"
proof (induction arbitrary: prev rule: replaced.induct)
  case Nil
  then show ?case by simp
next
  case (Keep x y c)
  from Keep.prems consider "c = 42" "prev \<noteq> Some 42" "italic_ahead y" | "has_italic (Some c) y"
    by auto
  then show ?case
  proof cases
    case 1
    then have "italic_ahead x" using Keep.hyps italic_ahead_back by blast
    then show ?thesis using 1 by simp
  next
    case 2
    then show ?thesis using Keep.IH by simp
  qed
next
  case (Repl x y t)
  have t: "42 \<notin> set t" "t \<noteq> []"
    using Repl.hyps(2) by (auto simp: tag_text_def)
  then have "last t \<in> set t" by simp
  then have t3: "last t \<noteq> 42" using t(1) by auto
  have "has_italic (Some (last t)) y"
    using Repl.prems has_italic_plain_prefix'[OF t, of prev y] by simp
  then have "has_italic None y" using t3 by (simp add: has_italic_not_star)
  then have "has_italic None x" using Repl.IH by blast
  then have "has_italic (Some 96) x" by (simp add: has_italic_not_star)
  then show ?case by simp
qed

subsection \<open>Code spans: every back quote is consumed\<close>

text \<open>
  \<open>code_spans t\<close>: the back quotes of \<open>t\<close> are those of inline spans (one back quote, a
  non-empty text without back quotes, one back quote) and of blocks (three back quotes,
  a text without back quotes, three back quotes), one after the other.
\<close>

inductive code_spans :: "pystr \<Rightarrow> bool" where
  Nil: "code_spans []"
| Other: "c \<noteq> 96 \<Longrightarrow> code_spans z \<Longrightarrow> code_spans (c # z)"
| Inline: "p \<noteq> [] \<Longrightarrow> 96 \<notin> set p \<Longrightarrow> code_spans z \<Longrightarrow> code_spans (96 # p @ 96 # z)"
| Block: "96 \<notin> set p \<Longrightarrow> code_spans z \<Longrightarrow> code_spans (96 # 96 # 96 # p @ 96 # 96 # 96 # z)"

lemma code_spans_prefix: "96 \<notin> set q \<Longrightarrow> code_spans z \<Longrightarrow> code_spans (q @ z)"
  by (induction q) (auto intro: code_spans.Other)

lemma sub_block_other: "c \<noteq> 96 \<Longrightarrow> sub_block (c # t) = c # sub_block t"
  by (cases t rule: sub_block.cases) auto

lemma sub_block_lone:
  assumes "\<not> (\<exists>r. t = 96 # 96 # r)"
  shows "sub_block (96 # t) = 96 # sub_block t"
proof (cases t rule: sub_block.cases)
  case (1 c d e r)
  then show ?thesis using assms by auto
next
  case (2 c d)
  then show ?thesis using assms by auto
qed auto

lemma sub_block_plain_prefix: "96 \<notin> set q \<Longrightarrow> sub_block (q @ t) = q @ sub_block t"
  by (induction q) (auto simp: sub_block_other simp del: sub_block.simps)

lemma lazy_block_Cons:
  "lazy_block (c # d # e # r) =
     (if c = 96 \<and> d = 96 \<and> e = 96 then Some ([], r)
      else map_option (\<lambda>(x, rest). (c # x, rest)) (lazy_block (d # e # r)))"
  by simp

lemma lazy_block_found: "96 \<notin> set q \<Longrightarrow> lazy_block (q @ 96 # 96 # 96 # t) = Some (q, t)"
proof (induction q)
  case Nil
  then show ?case by simp
next
  case (Cons c q)
  obtain d e r where r: "q @ 96 # 96 # 96 # t = d # e # r"
    by (cases q; cases "tl q") auto
  have "lazy_block (c # q @ 96 # 96 # 96 # t)
      = map_option (\<lambda>(x, rest). (c # x, rest)) (lazy_block (q @ 96 # 96 # 96 # t))"
    using Cons.prems unfolding r by simp
  then show ?case using Cons by simp
qed

lemma lazy_block_found_after_one:
  assumes "q \<noteq> []" "96 \<notin> set q"
  shows "lazy_block (96 # q @ 96 # 96 # 96 # t) = Some (96 # q, t)"
proof -
  obtain a q' where q: "q = a # q'" using assms(1) by (cases q) auto
  obtain e r where r: "q' @ 96 # 96 # 96 # t = e # r" by (cases q') auto
  have "a \<noteq> 96" using assms(2) q by simp
  then have "lazy_block (96 # a # e # r)
      = map_option (\<lambda>(x, rest). (96 # x, rest)) (lazy_block (a # e # r))"
    by simp
  then show ?thesis using lazy_block_found[OF assms(2), of t] q r by simp
qed

lemma sub_block_block:
  "96 \<notin> set q \<Longrightarrow>
   sub_block (96 # 96 # 96 # q @ 96 # 96 # 96 # t) = code_open @ q @ code_close @ sub_block t"
  by (simp add: lazy_block_found)

lemma sub_block_block_after_one:
  "q \<noteq> [] \<Longrightarrow> 96 \<notin> set q \<Longrightarrow>
   sub_block (96 # 96 # 96 # 96 # q @ 96 # 96 # 96 # t)
     = code_open @ 96 # q @ code_close @ sub_block t"
  using lazy_block_found_after_one[of q t] by simp

lemma sub_block_seven:
  "sub_block (96 # 96 # 96 # 96 # 96 # 96 # 96 # t) = code_open @ code_close @ sub_block (96 # t)"
  by simp

lemma sub_code_plain_prefix: "96 \<notin> set q \<Longrightarrow> sub_code (q @ t) = q @ sub_code t"
  by (induction q) auto

lemma match_code_found: "p \<noteq> [] \<Longrightarrow> 96 \<notin> set p \<Longrightarrow> match_code (p @ 96 # w) = Some (p, w)"
proof -
  assume p: "p \<noteq> []" "96 \<notin> set p"
  have "takeWhile (\<lambda>c. c \<noteq> 96) (p @ 96 # w) = p \<and> dropWhile (\<lambda>c. c \<noteq> 96) (p @ 96 # w) = 96 # w"
    using p(2) by (induction p) auto
  then show ?thesis using p(1) by (simp add: match_code_def)
qed

lemma sub_code_inline:
  "p \<noteq> [] \<Longrightarrow> 96 \<notin> set p \<Longrightarrow>
   sub_code (96 # p @ 96 # w) = code_open @ p @ code_close @ sub_code w"
  by (simp add: match_code_found)

lemma no_backquote_in_tags: "96 \<notin> set code_open" "96 \<notin> set code_close"
  using tag_text_code_open tag_text_code_close by (auto simp: tag_text_def)

lemma code_spans_consumed:
  "code_spans z \<Longrightarrow>
   96 \<notin> set (sub_code (sub_block z))
   \<and> (\<forall>p. p \<noteq> [] \<and> 96 \<notin> set p \<longrightarrow> 96 \<notin> set (sub_code (96 # p @ sub_block (96 # z))))"
proof (induction rule: code_spans.induct)
  case Nil
  have "96 \<notin> set (sub_code (96 # p @ [96]))" if "p \<noteq> []" "96 \<notin> set p" for p
    using that sub_code_inline[of p "[]"] no_backquote_in_tags by simp
  then show ?case by simp
next
  case (Other c z)
  have a: "96 \<notin> set (sub_code (sub_block (c # z)))"
    using Other by (simp add: sub_block_other del: sub_block.simps)
  have "sub_block (96 # c # z) = 96 # sub_block (c # z)"
    using Other.hyps(1) by (intro sub_block_lone) simp
  then have "96 \<notin> set (sub_code (96 # p @ sub_block (96 # c # z)))" if "p \<noteq> []" "96 \<notin> set p" for p
    using that a no_backquote_in_tags by (simp add: sub_code_inline del: sub_block.simps sub_code.simps)
  then show ?case using a by blast
next
  case (Inline p0 z)
  have "sub_block (96 # p0 @ 96 # z) = 96 # sub_block (p0 @ 96 # z)"
    using Inline.hyps(1,2) by (intro sub_block_lone) (cases p0; auto)
  then have s: "sub_block (96 # p0 @ 96 # z) = 96 # p0 @ sub_block (96 # z)"
    using Inline.hyps(2) by (simp add: sub_block_plain_prefix)
  have a: "96 \<notin> set (sub_code (sub_block (96 # p0 @ 96 # z)))"
    unfolding s using Inline.IH Inline.hyps(1,2) by blast
  have "sub_block (96 # 96 # p0 @ 96 # z) = 96 # sub_block (96 # p0 @ 96 # z)"
    using Inline.hyps(1,2) by (intro sub_block_lone) (cases p0; auto)
  then have "96 \<notin> set (sub_code (96 # p @ sub_block (96 # 96 # p0 @ 96 # z)))"
    if "p \<noteq> []" "96 \<notin> set p" for p
    using that a no_backquote_in_tags by (simp add: sub_code_inline del: sub_block.simps sub_code.simps)
  then show ?case using a by blast
next
  case (Block q z)
  have a: "96 \<notin> set (sub_code (sub_block (96 # 96 # 96 # q @ 96 # 96 # 96 # z)))"
    using Block no_backquote_in_tags
    by (simp add: sub_block_block sub_code_plain_prefix del: sub_block.simps sub_code.simps)
  have "96 \<notin> set (sub_code (96 # p @ sub_block (96 # 96 # 96 # 96 # q @ 96 # 96 # 96 # z)))"
    if p: "p \<noteq> []" "96 \<notin> set p" for p
  proof (cases "q = []")
    case True
    have p': "p @ code_open @ code_close \<noteq> []" "96 \<notin> set (p @ code_open @ code_close)"
      using p no_backquote_in_tags by simp_all
    have "96 \<notin> set (sub_code (96 # (p @ code_open @ code_close) @ sub_block (96 # z)))"
      using Block.IH p' by blast
    then show ?thesis using True by (simp add: sub_block_seven del: sub_block.simps sub_code.simps)
  next
    case False
    have p': "p @ code_open \<noteq> []" "96 \<notin> set (p @ code_open)"
      using p no_backquote_in_tags by simp_all
    have "sub_code (96 # (p @ code_open) @ 96 # q @ code_close @ sub_block z)
        = code_open @ (p @ code_open) @ code_close @ sub_code (q @ code_close @ sub_block z)"
      using p' by (rule sub_code_inline)
    also have "sub_code (q @ code_close @ sub_block z) = q @ code_close @ sub_code (sub_block z)"
      using Block.hyps(1) no_backquote_in_tags sub_code_plain_prefix[of "q @ code_close" "sub_block z"]
      by simp
    finally have "96 \<notin> set (sub_code (96 # (p @ code_open) @ 96 # q @ code_close @ sub_block z))"
      using p Block.hyps(1) Block.IH no_backquote_in_tags by simp
    then show ?thesis
      using False Block.hyps(1)
      by (simp add: sub_block_block_after_one del: sub_block.simps sub_code.simps)
  qed
  then show ?case using a by blast
qed

lemma sub_block_plain: "96 \<notin> set t \<Longrightarrow> sub_block t = t"
  using sub_block_plain_prefix[of t "[]"] by simp

lemma sub_code_plain: "96 \<notin> set t \<Longrightarrow> sub_code t = t"
  using sub_code_plain_prefix[of t "[]"] by simp

subsection \<open>The asterisk rules keep the code spans\<close>

lemma replaced_split_forward:
  "replaced d (x1 @ c # x2) y \<Longrightarrow> c \<noteq> d \<Longrightarrow>
   \<exists>y1 y2. y = y1 @ c # y2 \<and> replaced d x1 y1 \<and> replaced d x2 y2"
proof (induction x1 arbitrary: y)
  case Nil
  then obtain y' where "y = c # y'" "replaced d x2 y'"
    by (auto elim: replaced_ConsE)
  then show ?case by (intro exI[of _ "[]"] exI[of _ y']) simp
next
  case (Cons a x1)
  from Cons.prems(1) have "replaced d (a # (x1 @ c # x2)) y" by simp
  then show ?case
  proof (rule replaced_ConsE)
    fix y' assume y: "y = a # y'" "replaced d (x1 @ c # x2) y'"
    then obtain y1 y2 where "y' = y1 @ c # y2" "replaced d x1 y1" "replaced d x2 y2"
      using Cons.IH Cons.prems(2) by blast
    then show ?thesis using y(1)
      by (intro exI[of _ "a # y1"] exI[of _ y2]) (auto intro: replaced.Keep)
  next
    fix y' t assume y: "a = d" "y = t @ y'" "replaced d (x1 @ c # x2) y'" "tag_text t"
    then obtain y1 y2 where "y' = y1 @ c # y2" "replaced d x1 y1" "replaced d x2 y2"
      using Cons.IH Cons.prems(2) by blast
    then show ?thesis using y
      by (intro exI[of _ "t @ y1"] exI[of _ y2]) (auto intro: replaced.Repl)
  qed
qed

lemma replaced_keeps_head:
  "replaced d (c # x) y \<Longrightarrow> c \<noteq> d \<Longrightarrow> \<exists>y'. y = c # y' \<and> replaced d x y'"
  by (auto elim: replaced_ConsE)

lemma code_spans_replaced: "code_spans x \<Longrightarrow> replaced 42 x y \<Longrightarrow> code_spans y"
proof (induction arbitrary: y rule: code_spans.induct)
  case Nil
  then show ?case by (auto elim: replaced_NilE intro: code_spans.Nil)
next
  case (Other c z)
  from Other.prems show ?case
  proof (rule replaced_ConsE)
    fix y' assume "y = c # y'" "replaced 42 z y'"
    then show ?thesis using Other by (auto intro: code_spans.Other)
  next
    fix y' t assume y: "y = t @ y'" "replaced 42 z y'" "tag_text t"
    then have "code_spans y'" using Other.IH by blast
    then show ?thesis using y(1,3) by (auto simp: tag_text_def intro: code_spans_prefix)
  qed
next
  case (Inline p z)
  obtain y0 where y0: "y = 96 # y0" "replaced 42 (p @ 96 # z) y0"
    using replaced_keeps_head[OF Inline.prems] by auto
  obtain p' y' where s: "y0 = p' @ 96 # y'" "replaced 42 p p'" "replaced 42 z y'"
    using replaced_split_forward[OF y0(2)] by auto
  have "p' \<noteq> []" using replaced_empty[OF s(2)] Inline.hyps(1) by simp
  moreover have "96 \<notin> set p'" using replaced_backquotes[OF s(2)] Inline.hyps(2) by simp
  moreover have "code_spans y'" using Inline.IH s(3) by blast
  ultimately show ?case unfolding y0(1) s(1) by (rule code_spans.Inline)
next
  case (Block p z)
  obtain y1 where y1: "y = 96 # y1" "replaced 42 (96 # 96 # p @ 96 # 96 # 96 # z) y1"
    using replaced_keeps_head[OF Block.prems] by auto
  obtain y2 where y2: "y1 = 96 # y2" "replaced 42 (96 # p @ 96 # 96 # 96 # z) y2"
    using replaced_keeps_head[OF y1(2)] by auto
  obtain y3 where y3: "y2 = 96 # y3" "replaced 42 (p @ 96 # 96 # 96 # z) y3"
    using replaced_keeps_head[OF y2(2)] by auto
  obtain p' y4 where s: "y3 = p' @ 96 # y4" "replaced 42 p p'" "replaced 42 (96 # 96 # z) y4"
    using replaced_split_forward[OF y3(2)] by auto
  obtain y5 where y5: "y4 = 96 # y5" "replaced 42 (96 # z) y5"
    using replaced_keeps_head[OF s(3)] by auto
  obtain y6 where y6: "y5 = 96 # y6" "replaced 42 z y6"
    using replaced_keeps_head[OF y5(2)] by auto
  have "96 \<notin> set p'" using replaced_backquotes[OF s(2)] Block.hyps(1) by simp
  moreover have "code_spans y6" using Block.IH y6(2) by blast
  ultimately have "code_spans (96 # 96 # 96 # p' @ 96 # 96 # 96 # y6)" by (rule code_spans.Block)
  then show ?case unfolding y1(1) y2(1) y3(1) s(1) y5(1) y6(1) by simp
qed

subsection \<open>Inputs made of the four patterns\<close>

text \<open>
  An input that contains only the four recognized patterns: a sequence of segments, each
  a plain text or one of the patterns around a plain text. A plain text has no asterisk
  and no back quote; the text inside single asterisks or single back quotes is not
  empty (two asterisks or two back quotes in a row are not that pattern).
\<close>

datatype segment = Plain pystr | Bold pystr | Italic pystr | CodeBlock pystr | Code pystr

fun render :: "segment \<Rightarrow> pystr" where
  "render (Plain p) = p"
| "render (Bold p) = [42, 42] @ p @ [42, 42]"
| "render (Italic p) = [42] @ p @ [42]"
| "render (CodeBlock p) = [96, 96, 96] @ p @ [96, 96, 96]"
| "render (Code p) = [96] @ p @ [96]"

definition plain :: "pystr \<Rightarrow> bool" where
  "plain p \<longleftrightarrow> 42 \<notin> set p \<and> 96 \<notin> set p"

fun recognized :: "segment \<Rightarrow> bool" where
  "recognized (Plain p) = plain p"
| "recognized (Bold p) = plain p"
| "recognized (Italic p) = (plain p \<and> p \<noteq> [])"
| "recognized (CodeBlock p) = plain p"
| "recognized (Code p) = (plain p \<and> p \<noteq> [])"

definition markup :: "segment list \<Rightarrow> pystr" where
  "markup segs = concat (map render segs)"

lemma code_spans_markup: "\<forall>s\<in>set segs. recognized s \<Longrightarrow> code_spans (markup segs)"
proof (induction segs)
  case Nil
  then show ?case by (simp add: markup_def code_spans.Nil)
next
  case (Cons s segs)
  then have ih: "code_spans (markup segs)" and r: "recognized s" by simp_all
  have m: "markup (s # segs) = render s @ markup segs" by (simp add: markup_def)
  show ?case
  proof (cases s)
    case (Plain p)
    then show ?thesis using r ih m by (simp add: plain_def code_spans_prefix)
  next
    case (Bold p)
    then have "96 \<notin> set (render s)" using r by (simp add: plain_def)
    then show ?thesis using ih m by (simp add: code_spans_prefix)
  next
    case (Italic p)
    then have "96 \<notin> set (render s)" using r by (simp add: plain_def)
    then show ?thesis using ih m by (simp add: code_spans_prefix)
  next
    case (CodeBlock p)
    then show ?thesis using r ih m code_spans.Block[of p "markup segs"] by (simp add: plain_def)
  next
    case (Code p)
    then show ?thesis using r ih m code_spans.Inline[of p "markup segs"] by (simp add: plain_def)
  qed
qed

lemma fix_telegram_formatting_eq:
  "fix_telegram_formatting t = sub_code (sub_block (sub_italic None (sub_bold t)))"
  by (simp add: fix_telegram_formatting_def)

text \<open>One pass leaves a text that a further pass does not change.\<close>

lemma fix_telegram_formatting_stable:
  assumes "code_spans t"
  shows "fix_telegram_formatting (fix_telegram_formatting t) = fix_telegram_formatting t"
proof -
  let ?t1 = "sub_bold t"
  let ?t2 = "sub_italic None ?t1"
  let ?t3 = "sub_block ?t2"
  let ?t4 = "sub_code ?t3"
  have c2: "code_spans ?t2"
    using assms code_spans_replaced replaced_sub_bold replaced_sub_italic by blast
  have q: "96 \<notin> set ?t4" using code_spans_consumed[OF c2] by blast
  have b1: "\<not> has_bold ?t1" by (rule sub_bold_leaves_no_match)
  have b2: "\<not> has_bold ?t2" using b1 has_bold_back[OF replaced_sub_italic[of ?t1 None]] by auto
  have b3: "\<not> has_bold ?t3" using b2 has_bold_back[OF replaced_sub_block[of ?t2]] by auto
  have b4: "\<not> has_bold ?t4" using b3 has_bold_back[OF replaced_sub_code[of ?t3]] by auto
  have i2: "\<not> has_italic None ?t2" by (rule sub_italic_leaves_no_match)
  have i3: "\<not> has_italic None ?t3" using i2 has_italic_back[OF replaced_sub_block[of ?t2]] by auto
  have i4: "\<not> has_italic None ?t4" using i3 has_italic_back[OF replaced_sub_code[of ?t3]] by auto
  have "sub_bold ?t4 = ?t4" using b4 by (rule sub_bold_no_match)
  moreover have "sub_italic None ?t4 = ?t4" using i4 by (rule sub_italic_no_match)
  moreover have "sub_block ?t4 = ?t4" using q by (rule sub_block_plain)
  moreover have "sub_code ?t4 = ?t4" using q by (rule sub_code_plain)
  ultimately show ?thesis by (simp add: fix_telegram_formatting_eq)
qed

definition sample_markup :: "segment list" where
  "sample_markup =
     [Bold (ascii ''a''), Italic (ascii ''b''), Plain (ascii '' c ''), Code (ascii ''d''),
      Plain (ascii '' ''), CodeBlock (ascii ''e'' @ [10] @ ascii ''f'')]"

text \<open>
  Claim C7. For every input made of the four recognized patterns and plain text
  (\<open>markup segs\<close> with every segment \<open>recognized\<close>), applying the Formatter to its own
  output gives that output again. After one pass no back quote is left, no text
  between double asterisks and none between single asterisks is left to match, and the
  tags that were inserted contain no asterisk, back quote or line feed, so nothing is
  wrapped a second time.
\<close>

theorem formatter_idempotent:
  assumes "\<forall>s\<in>set segs. recognized s"
  shows "fix_telegram_formatting (fix_telegram_formatting (markup segs))
     = fix_telegram_formatting (markup segs)"
  using assms code_spans_markup fix_telegram_formatting_stable by blast

lemma fix_sample:
  "fix_telegram_formatting (markup sample_markup)
     = ascii ''<b>a</b><i>b</i> c <code>d</code> <code>e'' @ [10] @ ascii ''f</code>''"
  by code_simp

theorem formatter_idempotent_witness:
  "recognized (Bold (ascii ''a'')) \<and> recognized (Italic (ascii ''b''))
   \<and> recognized (Plain (ascii '' c '')) \<and> recognized (Code (ascii ''d''))
   \<and> recognized (Plain (ascii '' ''))
   \<and> recognized (CodeBlock (ascii ''e'' @ [10] @ ascii ''f''))
   \<and> fix_telegram_formatting (markup sample_markup)
       = ascii ''<b>a</b><i>b</i> c <code>d</code> <code>e'' @ [10] @ ascii ''f</code>''
   \<and> fix_telegram_formatting
         (ascii ''<b>a</b><i>b</i> c <code>d</code> <code>e'' @ [10] @ ascii ''f</code>'')
       = ascii ''<b>a</b><i>b</i> c <code>d</code> <code>e'' @ [10] @ ascii ''f</code>''"
proof -
  have r: "recognized (Bold (ascii ''a''))" "recognized (Italic (ascii ''b''))"
    "recognized (Plain (ascii '' c ''))" "recognized (Code (ascii ''d''))"
    "recognized (Plain (ascii '' ''))"
    "recognized (CodeBlock (ascii ''e'' @ [10] @ ascii ''f''))"
    by (simp_all add: plain_def ascii_def)
  then have h: "\<forall>s\<in>set sample_markup. recognized s" by (simp add: sample_markup_def)
  have f: "fix_telegram_formatting (markup sample_markup)
       = ascii ''<b>a</b><i>b</i> c <code>d</code> <code>e'' @ [10] @ ascii ''f</code>''"
    by (rule fix_sample)
  show ?thesis using formatter_idempotent[OF h] r f by simp
qed

text \<open>
  Outside these inputs the Formatter need not be idempotent: two back quotes around a
  text are not a code span, the first pass wraps the text between the inner back
  quotes, and a second pass wraps the result again.
\<close>

lemma formatter_double_wrap:
  "fix_telegram_formatting [96, 96, 97, 96, 96] = [96] @ ascii ''<code>a</code>'' @ [96]
   \<and> fix_telegram_formatting ([96] @ ascii ''<code>a</code>'' @ [96])
       = ascii ''<code><code>a</code></code>''"
  by code_simp

end
